theory Spec2Isabelle
  imports Main "HOL-Library.Word" "HOL-Library.Multiset" "HOL-Library.List_Lexorder"
    "HOL-Library.Char_ord"
begin

unbundle bit_operations_syntax

section \<open>Runtime primitives used by the sidecar\<close>

text \<open>
  The sidecar is TypeScript on Node. Strings are modelled as \<open>string\<close>, one \<open>char\<close> per
  UTF-16 code unit, restricted to the code units below 256. Values decoded from JSON are
  modelled by the datatype \<open>json\<close>; numbers are restricted to integers.
\<close>

subsection \<open>SHA-256 and HMAC (node:crypto)\<close>

type_synonym byte = "8 word"
type_synonym u32 = "32 word"
type_synonym sha_state = "u32 \<times> u32 \<times> u32 \<times> u32 \<times> u32 \<times> u32 \<times> u32 \<times> u32"

definition rotr :: "nat \<Rightarrow> u32 \<Rightarrow> u32" where
  "rotr n x = drop_bit n x OR push_bit (32 - n) x"

definition Ch :: "u32 \<Rightarrow> u32 \<Rightarrow> u32 \<Rightarrow> u32" where
  "Ch x y z = (x AND y) XOR (NOT x AND z)"

definition Maj :: "u32 \<Rightarrow> u32 \<Rightarrow> u32 \<Rightarrow> u32" where
  "Maj x y z = (x AND y) XOR (x AND z) XOR (y AND z)"

definition Sigma0 :: "u32 \<Rightarrow> u32" where
  "Sigma0 x = rotr 2 x XOR rotr 13 x XOR rotr 22 x"

definition Sigma1 :: "u32 \<Rightarrow> u32" where
  "Sigma1 x = rotr 6 x XOR rotr 11 x XOR rotr 25 x"

definition sigma0 :: "u32 \<Rightarrow> u32" where
  "sigma0 x = rotr 7 x XOR rotr 18 x XOR drop_bit 3 x"

definition sigma1 :: "u32 \<Rightarrow> u32" where
  "sigma1 x = rotr 17 x XOR rotr 19 x XOR drop_bit 10 x"

definition sha256_K :: "u32 list" where
  "sha256_K =
    [
       0x428A2F98, 0x71374491, 0xB5C0FBCF, 0xE9B5DBA5,
       0x3956C25B, 0x59F111F1, 0x923F82A4, 0xAB1C5ED5,
       0xD807AA98, 0x12835B01, 0x243185BE, 0x550C7DC3,
       0x72BE5D74, 0x80DEB1FE, 0x9BDC06A7, 0xC19BF174,
       0xE49B69C1, 0xEFBE4786, 0x0FC19DC6, 0x240CA1CC,
       0x2DE92C6F, 0x4A7484AA, 0x5CB0A9DC, 0x76F988DA,
       0x983E5152, 0xA831C66D, 0xB00327C8, 0xBF597FC7,
       0xC6E00BF3, 0xD5A79147, 0x06CA6351, 0x14292967,
       0x27B70A85, 0x2E1B2138, 0x4D2C6DFC, 0x53380D13,
       0x650A7354, 0x766A0ABB, 0x81C2C92E, 0x92722C85,
       0xA2BFE8A1, 0xA81A664B, 0xC24B8B70, 0xC76C51A3,
       0xD192E819, 0xD6990624, 0xF40E3585, 0x106AA070,
       0x19A4C116, 0x1E376C08, 0x2748774C, 0x34B0BCB5,
       0x391C0CB3, 0x4ED8AA4A, 0x5B9CCA4F, 0x682E6FF3,
       0x748F82EE, 0x78A5636F, 0x84C87814, 0x8CC70208,
       0x90BEFFFA, 0xA4506CEB, 0xBEF9A3F7, 0xC67178F2
    ]"

definition sha256_H0 :: sha_state where
  "sha256_H0 =
    (0x6A09E667, 0xBB67AE85, 0x3C6EF372, 0xA54FF53A,
     0x510E527F, 0x9B05688C, 0x1F83D9AB, 0x5BE0CD19)"

definition be32 :: "byte list \<Rightarrow> u32" where
  "be32 bs = foldl (\<lambda>acc b. push_bit 8 acc OR ucast b) 0 bs"

definition be_bytes32 :: "u32 \<Rightarrow> byte list" where
  "be_bytes32 w = [ucast (drop_bit 24 w), ucast (drop_bit 16 w), ucast (drop_bit 8 w), ucast w]"

definition be_bytes64 :: "64 word \<Rightarrow> byte list" where
  "be_bytes64 w = map (\<lambda>i. ucast (drop_bit (8 * (7 - i)) w)) [0..<8]"

definition sha256_pad :: "byte list \<Rightarrow> byte list" where
  "sha256_pad bs =
     bs @ [0x80] @ replicate ((119 - length bs mod 64) mod 64) 0
        @ be_bytes64 (of_nat (8 * length bs))"

definition sha256_blocks :: "byte list \<Rightarrow> byte list list" where
  "sha256_blocks bs = map (\<lambda>i. take 64 (drop (64 * i) bs)) [0..<length bs div 64]"

definition block_words :: "byte list \<Rightarrow> u32 list" where
  "block_words blk = map (\<lambda>j. be32 (take 4 (drop (4 * j) blk))) [0..<16]"

fun schedule :: "nat \<Rightarrow> u32 list \<Rightarrow> u32 list" where
  "schedule 0 w = w"
| "schedule (Suc n) w =
     (let t = length w
      in schedule n (w @ [sigma1 (w ! (t - 2)) + w ! (t - 7) + sigma0 (w ! (t - 15)) + w ! (t - 16)]))"

definition sha256_round :: "sha_state \<Rightarrow> u32 \<times> u32 \<Rightarrow> sha_state" where
  "sha256_round s kw =
     (case s of (a, b, c, d, e, f, g, h) \<Rightarrow>
        let t1 = h + Sigma1 e + Ch e f g + fst kw + snd kw;
            t2 = Sigma0 a + Maj a b c
        in (t1 + t2, a, b, c, d + t1, e, f, g))"

definition add_state :: "sha_state \<Rightarrow> sha_state \<Rightarrow> sha_state" where
  "add_state s s' =
     (case s of (a, b, c, d, e, f, g, h) \<Rightarrow>
      case s' of (a', b', c', d', e', f', g', h') \<Rightarrow>
        (a + a', b + b', c + c', d + d', e + e', f + f', g + g', h + h'))"

definition sha256_compress :: "sha_state \<Rightarrow> byte list \<Rightarrow> sha_state" where
  "sha256_compress s blk =
     add_state s (foldl sha256_round s (zip sha256_K (schedule 48 (block_words blk))))"

definition state_words :: "sha_state \<Rightarrow> u32 list" where
  "state_words s = (case s of (a, b, c, d, e, f, g, h) \<Rightarrow> [a, b, c, d, e, f, g, h])"

definition sha256 :: "byte list \<Rightarrow> byte list" where
  "sha256 bs =
     concat (map be_bytes32
       (state_words (foldl sha256_compress sha256_H0 (sha256_blocks (sha256_pad bs)))))"

definition hmac_sha256 :: "byte list \<Rightarrow> byte list \<Rightarrow> byte list" where
  "hmac_sha256 key msg =
     (let k0 = (if length key > 64 then sha256 key else key);
          k = k0 @ replicate (64 - length k0) 0
      in sha256 (map (\<lambda>b. b XOR 0x5C) k @ sha256 (map (\<lambda>b. b XOR 0x36) k @ msg)))"

text \<open>Hexadecimal rendering of a digest (\<open>digest('hex')\<close>): lower case, two digits a byte.\<close>

definition hex_digit :: "nat \<Rightarrow> char" where
  "hex_digit n = ''0123456789abcdef'' ! (n mod 16)"

definition hex_byte :: "byte \<Rightarrow> string" where
  "hex_byte b = [hex_digit (unat b div 16), hex_digit (unat b mod 16)]"

definition to_hex :: "byte list \<Rightarrow> string" where
  "to_hex bs = concat (map hex_byte bs)"

text \<open>A string is hashed in its UTF-8 encoding.\<close>

definition utf8_char :: "char \<Rightarrow> byte list" where
  "utf8_char c =
     (let n = (of_char c :: nat)
      in if n < 128 then [of_nat n] else [of_nat (192 + n div 64), of_nat (128 + n mod 64)])"

definition utf8_encode :: "string \<Rightarrow> byte list" where
  "utf8_encode s = concat (map utf8_char s)"

definition sha256_hex :: "string \<Rightarrow> string" where
  "sha256_hex s = to_hex (sha256 (utf8_encode s))"

definition hmac_sha256_hex :: "string \<Rightarrow> string \<Rightarrow> string" where
  "hmac_sha256_hex secret body = to_hex (hmac_sha256 (utf8_encode secret) (utf8_encode body))"

subsection \<open>JavaScript values\<close>

datatype json =
    JNull
  | JBool bool
  | JNum int
  | JStr string
  | JArr "json list"
  | JObj "(string \<times> json) list"

text \<open>
  \<open>JNull\<close> stands for both \<open>null\<close> and \<open>undefined\<close>. An object lists its own properties in
  enumeration order. \<open>js_truthy\<close> is the test behind \<open>!x\<close>, \<open>x || y\<close> and \<open>x ? y : z\<close>.
  \<open>JNum n\<close> stands for the JavaScript number \<open>n\<close> when \<open>n\<close> is a safe integer (at most
  \<open>2\<^sup>5\<^sup>3 - 1\<close> in absolute value); these are the numbers that JavaScript prints as plain
  decimals, as \<open>show_int\<close> does.
\<close>

definition safe_integer :: "int \<Rightarrow> bool" where
  "safe_integer n = (\<bar>n\<bar> \<le> 9007199254740991)"

fun js_truthy :: "json \<Rightarrow> bool" where
  "js_truthy JNull = False"
| "js_truthy (JBool b) = b"
| "js_truthy (JNum n) = (n \<noteq> 0)"
| "js_truthy (JStr s) = (s \<noteq> [])"
| "js_truthy (JArr xs) = True"
| "js_truthy (JObj kvs) = True"

text \<open>Property lookup on a decoded JSON value: \<open>undefined\<close> when absent or not an object.\<close>

fun js_get :: "json \<Rightarrow> string \<Rightarrow> json" where
  "js_get (JObj kvs) k = (case map_of kvs k of Some v \<Rightarrow> v | None \<Rightarrow> JNull)"
| "js_get _ k = JNull"

subsection \<open>Number and string rendering\<close>

definition digit_char :: "nat \<Rightarrow> char" where
  "digit_char n = char_of (48 + n mod 10)"

fun digits_of :: "nat \<Rightarrow> string" where
  "digits_of n = (if n < 10 then [digit_char n] else digits_of (n div 10) @ [digit_char n])"

declare digits_of.simps [simp del]

definition show_int :: "int \<Rightarrow> string" where
  "show_int i = (if i < 0 then CHR ''-'' # digits_of (nat (- i)) else digits_of (nat i))"

definition is_digit :: "char \<Rightarrow> bool" where
  "is_digit c = (48 \<le> (of_char c :: nat) \<and> (of_char c :: nat) \<le> 57)"

text \<open>The number a string of decimal digits stands for.\<close>

definition digits_value :: "string \<Rightarrow> nat" where
  "digits_value ds = foldl (\<lambda>acc c. 10 * acc + (of_char c - 48)) 0 ds"

definition backslash :: char where
  "backslash = CHR 0x5C"

definition dquote :: char where
  "dquote = CHR 0x22"

definition hex4 :: "nat \<Rightarrow> string" where
  "hex4 n = [hex_digit (n div 4096), hex_digit (n div 256), hex_digit (n div 16), hex_digit n]"

text \<open>The escapes of \<open>JSON.stringify\<close> for one code unit of a string.\<close>

definition json_escape_char :: "char \<Rightarrow> string" where
  "json_escape_char c =
     (let n = (of_char c :: nat)
      in if n = 0x22 then [backslash, dquote]
         else if n = 0x5C then [backslash, backslash]
         else if n = 8 then [backslash, CHR ''b'']
         else if n = 12 then [backslash, CHR ''f'']
         else if n = 10 then [backslash, CHR ''n'']
         else if n = 13 then [backslash, CHR ''r'']
         else if n = 9 then [backslash, CHR ''t'']
         else if n < 32 then backslash # CHR ''u'' # hex4 n
         else [c])"

definition json_quote :: "string \<Rightarrow> string" where
  "json_quote s = dquote # concat (map json_escape_char s) @ [dquote]"

fun JSON_stringify :: "json \<Rightarrow> string"
  and stringify_elems :: "json list \<Rightarrow> string"
  and stringify_members :: "(string \<times> json) list \<Rightarrow> string" where
  "JSON_stringify JNull = ''null''"
| "JSON_stringify (JBool b) = (if b then ''true'' else ''false'')"
| "JSON_stringify (JNum n) = show_int n"
| "JSON_stringify (JStr s) = json_quote s"
| "JSON_stringify (JArr xs) = ''['' @ stringify_elems xs @ '']''"
| "JSON_stringify (JObj kvs) = ''{'' @ stringify_members kvs @ ''}''"
| "stringify_elems [] = []"
| "stringify_elems [x] = JSON_stringify x"
| "stringify_elems (x # y # ys) = JSON_stringify x @ '','' @ stringify_elems (y # ys)"
| "stringify_members [] = []"
| "stringify_members [kv] = json_quote (fst kv) @ '':'' @ JSON_stringify (snd kv)"
| "stringify_members (kv # kv' # kvs) =
     json_quote (fst kv) @ '':'' @ JSON_stringify (snd kv) @ '','' @ stringify_members (kv' # kvs)"

text \<open>
  Every number in a value is a safe integer, so that \<open>JSON_stringify\<close> prints the value as
  \<open>JSON.stringify\<close> does.
\<close>

fun safe_json :: "json \<Rightarrow> bool"
  and safe_elems :: "json list \<Rightarrow> bool"
  and safe_members :: "(string \<times> json) list \<Rightarrow> bool" where
  "safe_json JNull = True"
| "safe_json (JBool b) = True"
| "safe_json (JNum n) = safe_integer n"
| "safe_json (JStr s) = True"
| "safe_json (JArr xs) = safe_elems xs"
| "safe_json (JObj kvs) = safe_members kvs"
| "safe_elems [] = True"
| "safe_elems (x # xs) = (safe_json x \<and> safe_elems xs)"
| "safe_members [] = True"
| "safe_members (kv # kvs) = (safe_json (snd kv) \<and> safe_members kvs)"

text \<open>
  White space as the regular expression \<open>\s\<close> and \<open>trim\<close> see it, among the code units
  below 256: tab, line feed, vertical tab, form feed, carriage return, space, no-break space.
\<close>

definition is_js_space :: "char \<Rightarrow> bool" where
  "is_js_space c = ((of_char c :: nat) \<in> {9, 10, 11, 12, 13, 32, 160})"

text \<open>
  \<open>s.replace(/\s+/g, ' ')\<close>: every maximal run of white space becomes one space. The flag
  says that the previous code unit was white space.
\<close>

fun replace_ws_runs :: "bool \<Rightarrow> string \<Rightarrow> string" where
  "replace_ws_runs prev [] = []"
| "replace_ws_runs prev (c # cs) =
     (if is_js_space c
      then (if prev then replace_ws_runs True cs else CHR '' '' # replace_ws_runs True cs)
      else c # replace_ws_runs False cs)"

definition js_trim :: "string \<Rightarrow> string" where
  "js_trim s = rev (dropWhile is_js_space (rev (dropWhile is_js_space s)))"

text \<open>
  \<open>Array.prototype.sort()\<close> without a comparator orders strings by their code units; on
  \<open>string\<close> that is the lexicographic order over the order of characters.
\<close>

definition js_sort :: "string list \<Rightarrow> string list" where
  "js_sort xs = sort xs"

section \<open>Execution cache (execution-cache.ts)\<close>

subsection \<open>Cache keys\<close>

datatype user_id = UserIdStr string | UserIdNum int

record user_context =
  userId :: "user_id option"
  userRoles :: "string list option"
  capabilities :: "string list option"
  isAuthenticated :: bool

record cacheable_subscription =
  query :: string
  variables :: json
  operationName :: "string option"
  userContext :: "user_context option"

fun user_id_truthy :: "user_id \<Rightarrow> bool" where
  "user_id_truthy (UserIdStr s) = (s \<noteq> [])"
| "user_id_truthy (UserIdNum n) = (n \<noteq> 0)"

fun user_id_json :: "user_id \<Rightarrow> json" where
  "user_id_json (UserIdStr s) = JStr s"
| "user_id_json (UserIdNum n) = JNum n"

fun user_id_text :: "user_id \<Rightarrow> string" where
  "user_id_text (UserIdStr s) = s"
| "user_id_text (UserIdNum n) = show_int n"

text \<open>
  A user id is a string or a number; the numbers are taken to be integers. A numeric
  user id is a safe integer: then \<open>user_id_text\<close> is the text that the template
  literal \<open>`u${userId}`\<close> prints, and \<open>user_id_json\<close> the value that \<open>JSON.stringify\<close> sees.
\<close>

fun safe_user_id :: "user_id option \<Rightarrow> bool" where
  "safe_user_id None = True"
| "safe_user_id (Some (UserIdStr s)) = True"
| "safe_user_id (Some (UserIdNum n)) = safe_integer n"

text \<open>\<open>userContext.userId || null\<close>\<close>

definition userId_or_null :: "user_id option \<Rightarrow> json" where
  "userId_or_null u =
     (case u of
        None \<Rightarrow> JNull
      | Some i \<Rightarrow> if user_id_truthy i then user_id_json i else JNull)"

definition sorted_or_empty :: "string list option \<Rightarrow> json" where
  "sorted_or_empty xs =
     (case xs of
        None \<Rightarrow> JArr []
      | Some ys \<Rightarrow> JArr (map JStr (js_sort ys)))"

definition normalizeUserContext :: "user_context option \<Rightarrow> json" where
  "normalizeUserContext uc =
     (case uc of
        None \<Rightarrow> JObj [(''isAuthenticated'', JBool False)]
      | Some c \<Rightarrow>
          JObj [(''userId'', userId_or_null (userId c)),
                (''userRoles'', sorted_or_empty (userRoles c)),
                (''capabilities'', sorted_or_empty (capabilities c)),
                (''isAuthenticated'', JBool (isAuthenticated c))])"

definition cache_payload :: "cacheable_subscription \<Rightarrow> json" where
  "cache_payload sub =
     JObj [(''query'', JStr (js_trim (replace_ws_runs False (query sub)))),
           (''variables'', if js_truthy (variables sub) then variables sub else JObj []),
           (''operationName'',
              (case operationName sub of
                 None \<Rightarrow> JNull
               | Some n \<Rightarrow> if n \<noteq> [] then JStr n else JNull)),
           (''userContext'', normalizeUserContext (userContext sub))]"

definition userIndicator :: "user_context option \<Rightarrow> string" where
  "userIndicator uc =
     (case uc of
        None \<Rightarrow> ''anon''
      | Some c \<Rightarrow>
          if isAuthenticated c
          then ''u'' @ (case userId c of
                          None \<Rightarrow> ''auth''
                        | Some i \<Rightarrow> if user_id_truthy i then user_id_text i else ''auth'')
          else ''anon'')"

definition generateCacheKey :: "cacheable_subscription \<Rightarrow> string" where
  "generateCacheKey sub =
     (let hash = take 16 (sha256_hex (JSON_stringify (cache_payload sub)))
      in hash @ ''_'' @ userIndicator (userContext sub))"

subsection \<open>Results, pending executions and the cache state\<close>

record execution_result =
  data :: json
  errors :: "json list option"
  timestamp :: int

text \<open>
  A promise returned by \<open>executeAndCache\<close> is either still running, suspended at
  \<open>await executor()\<close> with its cache key and start time, or fulfilled with a result.
  \<open>executeAndCache\<close> catches the executor's rejection, so its promise is never rejected.
\<close>

type_synonym promise_id = nat

datatype promise_state =
    Running string int
  | Fulfilled execution_result

record pending_execution =
  promise :: promise_id
  subscribers :: "string set"

text \<open>
  The fields of \<open>SubscriptionExecutionCache\<close>, the promises it has created, and the log of
  executor invocations (one cache key per invocation).
\<close>

record cache_state =
  cache :: "string \<rightharpoonup> execution_result"
  pendingExecutions :: "string \<rightharpoonup> pending_execution"
  ttlMs :: int
  promises :: "promise_id \<rightharpoonup> promise_state"
  nextPromise :: promise_id
  executorCalls :: "string list"

definition new_cache :: "int \<Rightarrow> cache_state" where
  "new_cache ttl =
     \<lparr>cache = Map.empty, pendingExecutions = Map.empty, ttlMs = ttl,
      promises = Map.empty, nextPromise = 0, executorCalls = []\<rparr>"

text \<open>What the executor's promise does: it resolves with a result or rejects with a value.\<close>

datatype js_error = ErrorObject string | ThrownValue

datatype executor_outcome = Resolves execution_result | Rejects js_error

text \<open>
  How a call of \<open>executeWithDeduplication\<close> leaves its synchronous part: it has returned a
  result, or it is suspended at an \<open>await\<close> on a promise, as the caller that started the
  execution (\<open>AwaitOwn\<close>) or as one that joined it (\<open>AwaitJoined\<close>).
\<close>

datatype call_outcome =
    Returned execution_result
  | AwaitOwn string promise_id
  | AwaitJoined string promise_id

subsection \<open>executeAndCache\<close>

text \<open>
  The part of \<open>executeAndCache\<close> before its \<open>await\<close>: the start time is read and the
  executor is invoked.
\<close>

definition executeAndCache_start :: "cache_state \<Rightarrow> int \<Rightarrow> string \<Rightarrow> promise_id \<times> cache_state" where
  "executeAndCache_start st now cacheKey =
     (let p = nextPromise st
      in (p, st\<lparr>promises := (promises st)(p \<mapsto> Running cacheKey now),
                nextPromise := Suc p,
                executorCalls := executorCalls st @ [cacheKey]\<rparr>))"

definition error_message :: "js_error \<Rightarrow> string" where
  "error_message e = (case e of ErrorObject m \<Rightarrow> m | ThrownValue \<Rightarrow> ''Execution failed'')"

definition errorResult :: "js_error \<Rightarrow> int \<Rightarrow> execution_result" where
  "errorResult e startTime =
     \<lparr>data = JNull,
      errors = Some [JObj [(''message'', JStr (error_message e)),
                           (''extensions'', JObj [(''code'', JStr ''EXECUTION_ERROR'')])]],
      timestamp = startTime\<rparr>"

definition settled_result :: "executor_outcome \<Rightarrow> int \<Rightarrow> execution_result" where
  "settled_result outcome startTime =
     (case outcome of
        Resolves result \<Rightarrow> result\<lparr>timestamp := startTime\<rparr>
      | Rejects e \<Rightarrow> errorResult e startTime)"

text \<open>
  The part of \<open>executeAndCache\<close> after its \<open>await\<close>, run when the executor's promise
  settles: the result is stamped with the start time, cached, and returned. \<open>None\<close> when
  the promise is not a running one.
\<close>

definition executeAndCache_settle :: "cache_state \<Rightarrow> promise_id \<Rightarrow> executor_outcome \<Rightarrow> cache_state option" where
  "executeAndCache_settle st p outcome =
     (case promises st p of
        Some (Running cacheKey startTime) \<Rightarrow>
          (let r = settled_result outcome startTime
           in Some (st\<lparr>cache := (cache st)(cacheKey \<mapsto> r),
                       promises := (promises st)(p \<mapsto> Fulfilled r)\<rparr>))
      | _ \<Rightarrow> None)"

subsection \<open>executeWithDeduplication\<close>

text \<open>The synchronous part of a call made at time \<open>now\<close>.\<close>

definition executeWithDeduplication ::
  "cache_state \<Rightarrow> int \<Rightarrow> cacheable_subscription \<Rightarrow> string \<Rightarrow> call_outcome \<times> cache_state" where
  "executeWithDeduplication st now subscription subscriptionId =
     (let cacheKey = generateCacheKey subscription
      in case (case cache st cacheKey of
                 Some cachedResult \<Rightarrow>
                   if now - timestamp cachedResult < ttlMs st then Some cachedResult else None
               | None \<Rightarrow> None) of
           Some cachedResult \<Rightarrow> (Returned cachedResult, st)
         | None \<Rightarrow>
             (case pendingExecutions st cacheKey of
                Some pendingExecution \<Rightarrow>
                  (AwaitJoined cacheKey (promise pendingExecution),
                   st\<lparr>pendingExecutions := (pendingExecutions st)(cacheKey \<mapsto>
                        pendingExecution\<lparr>subscribers :=
                          insert subscriptionId (subscribers pendingExecution)\<rparr>)\<rparr>)
              | None \<Rightarrow>
                  (let (p, st1) = executeAndCache_start st now cacheKey
                   in (AwaitOwn cacheKey p,
                       st1\<lparr>pendingExecutions := (pendingExecutions st1)(cacheKey \<mapsto>
                            \<lparr>promise = p, subscribers = {subscriptionId}\<rparr>)\<rparr>))))"

text \<open>
  The continuation of a suspended call, run once the awaited promise is fulfilled: the
  result is returned and the \<open>finally\<close> block runs. The caller that started the execution
  deletes the pending entry of the key; a joiner removes itself from the subscribers of
  the pending execution it joined. \<open>None\<close> when the call is not suspended on a fulfilled
  promise.
\<close>

definition resume_call :: "cache_state \<Rightarrow> call_outcome \<Rightarrow> string \<Rightarrow> (execution_result \<times> cache_state) option" where
  "resume_call st suspended subscriptionId =
     (case suspended of
        Returned r \<Rightarrow> None
      | AwaitOwn cacheKey p \<Rightarrow>
          (case promises st p of
             Some (Fulfilled r) \<Rightarrow>
               Some (r, st\<lparr>pendingExecutions := (pendingExecutions st)(cacheKey := None)\<rparr>)
           | _ \<Rightarrow> None)
      | AwaitJoined cacheKey p \<Rightarrow>
          (case promises st p of
             Some (Fulfilled r) \<Rightarrow>
               Some (r,
                 (case pendingExecutions st cacheKey of
                    Some pe \<Rightarrow>
                      if promise pe = p
                      then st\<lparr>pendingExecutions := (pendingExecutions st)(cacheKey \<mapsto>
                             pe\<lparr>subscribers := subscribers pe - {subscriptionId}\<rparr>)\<rparr>
                      else st
                  | None \<Rightarrow> st))
           | _ \<Rightarrow> None))"

text \<open>The periodic sweep: entries older than the time-to-live are deleted.\<close>

definition cleanup :: "cache_state \<Rightarrow> int \<Rightarrow> cache_state" where
  "cleanup st now =
     st\<lparr>cache := (\<lambda>key. case cache st key of
                          Some result \<Rightarrow>
                            if now - timestamp result > ttlMs st then None else Some result
                        | None \<Rightarrow> None)\<rparr>"

section \<open>Webhook ingestion (http.ts)\<close>

subsection \<open>More of the runtime: split, hex decoding, String(), lower case\<close>

text \<open>\<open>s.split(sep)\<close> for a one-character separator: never the empty list.\<close>

fun js_split :: "char \<Rightarrow> string \<Rightarrow> string list" where
  "js_split sep [] = [[]]"
| "js_split sep (c # cs) =
     (if c = sep then [] # js_split sep cs
      else (case js_split sep cs of
              [] \<Rightarrow> [[c]]
            | x # xs \<Rightarrow> (c # x) # xs))"

definition unhex :: "char \<Rightarrow> nat option" where
  "unhex c =
     (let n = (of_char c :: nat)
      in if 48 \<le> n \<and> n \<le> 57 then Some (n - 48)
         else if 97 \<le> n \<and> n \<le> 102 then Some (n - 87)
         else if 65 \<le> n \<and> n \<le> 70 then Some (n - 55)
         else None)"

text \<open>
  \<open>Buffer.from(s, 'hex')\<close>: pairs of hexadecimal digits are decoded up to the first pair
  that is not one; a single trailing character is dropped.
\<close>

fun hex_decode :: "string \<Rightarrow> byte list" where
  "hex_decode (a # b # cs) =
     (case unhex a of
        None \<Rightarrow> []
      | Some x \<Rightarrow>
          (case unhex b of
             None \<Rightarrow> []
           | Some y \<Rightarrow> of_nat (16 * x + y) # hex_decode cs))"
| "hex_decode _ = []"

definition js_lower_char :: "char \<Rightarrow> char" where
  "js_lower_char c =
     (let n = (of_char c :: nat)
      in if (65 \<le> n \<and> n \<le> 90) \<or> (192 \<le> n \<and> n \<le> 222 \<and> n \<noteq> 215)
         then char_of (n + 32) else c)"

definition js_toLowerCase :: "string \<Rightarrow> string" where
  "js_toLowerCase s = map js_lower_char s"

text \<open>
  \<open>String(v)\<close> and \<open>`${v}`\<close> on a decoded JSON value; \<open>None\<close> when the conversion throws
  a TypeError. An object converts through its \<open>toString\<close>: the one of \<open>Object.prototype\<close>
  gives \<open>[object Object]\<close>, but an own property \<open>toString\<close> hides it, and since a value
  decoded from JSON is never a function (and \<open>valueOf\<close> then gives no primitive either),
  the conversion throws. An array joins the conversions of its elements, \<open>null\<close> counting
  as the empty string.
\<close>

fun js_String :: "json \<Rightarrow> string option"
  and js_join :: "json list \<Rightarrow> string option" where
  "js_String JNull = Some ''null''"
| "js_String (JBool b) = Some (if b then ''true'' else ''false'')"
| "js_String (JNum n) = Some (show_int n)"
| "js_String (JStr s) = Some s"
| "js_String (JArr xs) = js_join xs"
| "js_String (JObj kvs) =
     (if ''toString'' \<in> set (map fst kvs) then None else Some ''[object Object]'')"
| "js_join [] = Some []"
| "js_join [x] = (if x = JNull then Some [] else js_String x)"
| "js_join (x # y # ys) =
     (case (if x = JNull then Some [] else js_String x) of
        None \<Rightarrow> None
      | Some first \<Rightarrow>
          (case js_join (y # ys) of
             None \<Rightarrow> None
           | Some others \<Rightarrow> Some (first @ '','' @ others)))"

text \<open>The own enumerable properties an object spread \<open>...v\<close> copies.\<close>

fun spread_entries :: "json \<Rightarrow> (string \<times> json) list" where
  "spread_entries (JObj kvs) = kvs"
| "spread_entries (JArr xs) = map (\<lambda>i. (show_int (int i), xs ! i)) [0..<length xs]"
| "spread_entries (JStr s) = map (\<lambda>i. (show_int (int i), JStr [s ! i])) [0..<length s]"
| "spread_entries _ = []"

fun set_property :: "string \<Rightarrow> json \<Rightarrow> (string \<times> json) list \<Rightarrow> (string \<times> json) list" where
  "set_property k v [] = [(k, v)]"
| "set_property k v (p # ps) = (if fst p = k then (k, v) # ps else p # set_property k v ps)"

text \<open>
  The order in which an object enumerates its own properties: the keys that are array
  indices (canonical decimals below \<open>2\<^sup>3\<^sup>2 - 1\<close>) first, in ascending order, then the
  other keys in the order of their creation.
\<close>

definition is_index_key :: "string \<Rightarrow> bool" where
  "is_index_key k =
     (k \<noteq> [] \<and> list_all is_digit k \<and> (k = ''0'' \<or> take 1 k \<noteq> ''0'') \<and>
      digits_value k < 4294967295)"

definition own_property_order :: "(string \<times> json) list \<Rightarrow> (string \<times> json) list" where
  "own_property_order kvs =
     sort_key (\<lambda>kv. digits_value (fst kv)) (filter (\<lambda>kv. is_index_key (fst kv)) kvs)
       @ filter (\<lambda>kv. \<not> is_index_key (fst kv)) kvs"

subsection \<open>Requests, responses and the server\<close>

record process_env =
  NODE_ENV :: "string option"
  WEBHOOK_SECRET :: "string option"

record http_response =
  status :: nat
  headers :: "(string \<times> string) list"
  body :: string

text \<open>
  A webhook request as the handler sees it: the signature header, the body string that
  \<open>parseRequestBody\<close> returns, and what \<open>JSON.parse\<close> makes of that string (\<open>None\<close> when it
  throws).
\<close>

record webhook_request =
  signatureHeader :: "string option"
  rawBody :: string
  decoded :: "json option"

text \<open>The Redis client is outside this file; of a publish only whether it throws matters.\<close>

record redis_client =
  publish_throws :: "json \<Rightarrow> bool"

record http_server =
  redisClient :: "redis_client option"
  corsOrigin :: "string list"

text \<open>The constructor always creates the Redis client.\<close>

definition HTTPServer_new :: "string list \<Rightarrow> redis_client \<Rightarrow> http_server" where
  "HTTPServer_new origins rc = \<lparr>redisClient = Some rc, corsOrigin = origins\<rparr>"

record webhook_result =
  response :: http_response
  publishCalls :: "(json \<times> json) list"

definition json_response :: "nat \<Rightarrow> json \<Rightarrow> http_response" where
  "json_response code v =
     \<lparr>status = code, headers = [(''Content-Type'', ''application/json'')],
      body = JSON_stringify v\<rparr>"

subsection \<open>validateWebhookSignature\<close>

definition dev_secret :: string where
  "dev_secret = ''dev-secret-key-change-in-production''"

definition webhookSecret :: "process_env \<Rightarrow> string" where
  "webhookSecret env =
     (case WEBHOOK_SECRET env of
        None \<Rightarrow> dev_secret
      | Some s \<Rightarrow> if s \<noteq> [] then s else dev_secret)"

definition validateWebhookSignature :: "process_env \<Rightarrow> string option \<Rightarrow> string \<Rightarrow> bool" where
  "validateWebhookSignature env signatureHeader_opt bodyText =
     (if NODE_ENV env \<noteq> Some ''production'' \<and> webhookSecret env = dev_secret then True
      else
        (case signatureHeader_opt of
           None \<Rightarrow> False
         | Some h \<Rightarrow>
             if h = [] then False
             else
               (case js_split CHR ''='' h of
                  [] \<Rightarrow> False
                | [algorithm] \<Rightarrow> False
                | algorithm # signature # rest \<Rightarrow>
                    if algorithm \<noteq> ''sha256'' \<or> signature = [] then False
                    else
                      (let expectedSignature = hmac_sha256_hex (webhookSecret env) bodyText;
                           signatureBuffer = hex_decode signature;
                           expectedBuffer = hex_decode expectedSignature
                       in if length signatureBuffer \<noteq> length expectedBuffer then False
                          else signatureBuffer = expectedBuffer))))"

subsection \<open>handleWebhookEvent\<close>

definition internal_error :: webhook_result where
  "internal_error =
     \<lparr>response = json_response 500
        (JObj [(''error'', JStr ''Internal Server Error''),
               (''message'', JStr ''Failed to process webhook event'')]),
      publishCalls = []\<rparr>"

text \<open>
  The payload for the subscribers, \<open>{id: String(node_id), action, timestamp, ...context}\<close>;
  \<open>None\<close> when \<open>String(node_id)\<close> throws.
\<close>

definition subscriptionPayload :: "json \<Rightarrow> int \<Rightarrow> json option" where
  "subscriptionPayload eventData now =
     (case js_String (js_get eventData ''node_id'') of
        None \<Rightarrow> None
      | Some idText \<Rightarrow>
          (let metadata_timestamp = js_get (js_get eventData ''metadata'') ''timestamp''
           in Some (JObj (own_property_order
                (foldl (\<lambda>obj kv. set_property (fst kv) (snd kv) obj)
                   [(''id'', JStr idText),
                    (''action'', js_get eventData ''action''),
                    (''timestamp'',
                       if js_truthy metadata_timestamp then metadata_timestamp else JNum now)]
                   (spread_entries (js_get eventData ''context'')))))))"

text \<open>The publish loop: every channel is tried; a publish that throws is not counted.\<close>

fun publish_all :: "redis_client \<Rightarrow> json \<Rightarrow> json list \<Rightarrow> nat \<times> (json \<times> json) list" where
  "publish_all rc payload [] = (0, [])"
| "publish_all rc payload (channel # channels) =
     (let (n, calls) = publish_all rc payload channels
      in ((if publish_throws rc channel then n else Suc n), (channel, payload) # calls))"

definition handleWebhookEvent ::
  "process_env \<Rightarrow> http_server \<Rightarrow> webhook_request \<Rightarrow> int \<Rightarrow> webhook_result" where
  "handleWebhookEvent env srv req now =
     (case decoded req of
        None \<Rightarrow> internal_error
      | Some eventData \<Rightarrow>
          if \<not> validateWebhookSignature env (signatureHeader req) (rawBody req)
          then \<lparr>response = json_response 401
                  (JObj [(''error'', JStr ''Unauthorized''),
                         (''message'', JStr ''Invalid webhook signature'')]),
                publishCalls = []\<rparr>
          else if eventData = JNull then internal_error
          else
            (let node_type = js_get eventData ''node_type'';
                 action = js_get eventData ''action'';
                 node_id = js_get eventData ''node_id''
             in if \<not> js_truthy node_type \<or> \<not> js_truthy action \<or> \<not> js_truthy node_id
                then \<lparr>response = json_response 400
                        (JObj [(''error'', JStr ''Invalid event format''),
                               (''message'', JStr ''Missing required fields: node_type, action, node_id'')]),
                      publishCalls = []\<rparr>
                else
                  (case js_String node_type of
                     None \<Rightarrow> internal_error
                   | Some typeText \<Rightarrow>
                  (case action of
                     JStr a \<Rightarrow>
                       (let eventType = typeText @ (take 1 a @ js_toLowerCase (drop 1 a))
                        in case redisClient srv of
                             None \<Rightarrow>
                               \<lparr>response = json_response 500
                                  (JObj [(''error'', JStr ''Redis not available''),
                                         (''message'', JStr ''Redis client not initialized'')]),
                                publishCalls = []\<rparr>
                           | Some rc \<Rightarrow>
                               (case js_get eventData ''channels'' of
                                  JArr channels \<Rightarrow>
                                    if channels = []
                                    then \<lparr>response = json_response 400
                                      (JObj [(''error'', JStr ''Missing channels''),
                                             (''message'', JStr ''WordPress must provide channels array in webhook payload for schema-agnostic operation'')]),
                                      publishCalls = []\<rparr>
                                    else
                                      (case subscriptionPayload eventData now of
                                         None \<Rightarrow> internal_error
                                       | Some payload \<Rightarrow>
                                      (let (publishCount, calls) =
                                             publish_all rc payload channels
                                       in \<lparr>response = json_response 200
                                            (JObj [(''status'', JStr ''success''),
                                                   (''event_type'', JStr eventType),
                                                   (''channels_published'', JNum (int publishCount)),
                                                   (''total_channels'', JNum (int (length channels)))]),
                                           publishCalls = calls\<rparr>))
                                | _ \<Rightarrow>
                                    \<lparr>response = json_response 400
                                      (JObj [(''error'', JStr ''Missing channels''),
                                             (''message'', JStr ''WordPress must provide channels array in webhook payload for schema-agnostic operation'')]),
                                     publishCalls = []\<rparr>))
                   | _ \<Rightarrow> internal_error))))"

section \<open>Subscription validation and the SSE handshake (http.ts)\<close>

subsection \<open>GraphQL documents (graphql-js)\<close>

datatype operation_kind = OpQuery | OpMutation | OpSubscription

fun operation_text :: "operation_kind \<Rightarrow> string" where
  "operation_text OpQuery = ''query''"
| "operation_text OpMutation = ''mutation''"
| "operation_text OpSubscription = ''subscription''"

datatype type_node = NamedType string | ListType type_node | NonNullType type_node

record variable_definition =
  variable_name :: string
  variable_type :: type_node

record operation_definition =
  operation :: operation_kind
  operation_name :: "string option"
  variableDefinitions :: "variable_definition list"

datatype definition_node = OperationDefinition operation_definition | OtherDefinition

type_synonym document = "definition_node list"

text \<open>
  \<open>getOperationAST(document, operationName)\<close> of graphql-js: without an operation name,
  the only operation of the document, and nothing when there are several; with a name,
  the first operation of that name.
\<close>

fun getOperationAST_loop ::
  "definition_node list \<Rightarrow> string option \<Rightarrow> operation_definition option \<Rightarrow> operation_definition option" where
  "getOperationAST_loop [] opName found = found"
| "getOperationAST_loop (OtherDefinition # ds) opName found =
     getOperationAST_loop ds opName found"
| "getOperationAST_loop (OperationDefinition d # ds) opName found =
     (case opName of
        None \<Rightarrow>
          (case found of
             Some earlier \<Rightarrow> None
           | None \<Rightarrow> getOperationAST_loop ds opName (Some d))
      | Some n \<Rightarrow>
          if operation_name d = Some n then Some d
          else getOperationAST_loop ds opName found)"

definition getOperationAST :: "document \<Rightarrow> string option \<Rightarrow> operation_definition option" where
  "getOperationAST doc opName = getOperationAST_loop doc opName None"

subsection \<open>The request and the \<open>in\<close> operator\<close>

text \<open>
  A \<open>GraphQLRequest\<close>: the query text, what \<open>parse\<close> of graphql-js makes of it (the message
  of the error it throws, or the document), the variables object when there is one, and
  the operation name.
\<close>

record graphql_request =
  req_query :: string
  req_document :: "string + document"
  req_variables :: "(string \<times> json) list option"
  req_operationName :: "string option"

text \<open>
  \<open>key in obj\<close> on an object made by \<open>JSON.parse\<close> or an object literal: true for the
  object's own properties and for those it inherits from \<open>Object.prototype\<close>.
\<close>

definition object_prototype_keys :: "string list" where
  "object_prototype_keys =
     [''constructor'', ''__defineGetter__'', ''__defineSetter__'', ''hasOwnProperty'',
      ''__lookupGetter__'', ''__lookupSetter__'', ''isPrototypeOf'', ''propertyIsEnumerable'',
      ''toString'', ''valueOf'', ''__proto__'', ''toLocaleString'']"

definition js_in :: "string \<Rightarrow> (string \<times> json) list \<Rightarrow> bool" where
  "js_in k obj = (k \<in> set (map fst obj) \<or> k \<in> set object_prototype_keys)"

subsection \<open>validateSubscription\<close>

record validation =
  isValid :: bool
  validation_errors :: "json list option"

definition error_entry :: "string \<Rightarrow> json" where
  "error_entry message = JObj [(''message'', JStr message), (''locations'', JArr [])]"

definition isRequired :: "variable_definition \<Rightarrow> bool" where
  "isRequired varDef = (case variable_type varDef of NonNullType t \<Rightarrow> True | _ \<Rightarrow> False)"

text \<open>The loop over the variable definitions, pushing the names that are missing.\<close>

definition missingVariables :: "variable_definition list \<Rightarrow> (string \<times> json) list \<Rightarrow> string list" where
  "missingVariables variableDefs providedVariables =
     foldl (\<lambda>missing varDef.
              if isRequired varDef \<and> \<not> js_in (variable_name varDef) providedVariables
              then missing @ [variable_name varDef] else missing)
       [] variableDefs"

definition validateSubscription :: "graphql_request \<Rightarrow> validation" where
  "validateSubscription graphqlRequest =
     (case req_document graphqlRequest of
        Inl message \<Rightarrow>
          \<lparr>isValid = False,
           validation_errors = Some [error_entry (''GraphQL syntax error: '' @ message)]\<rparr>
      | Inr doc \<Rightarrow>
          (case getOperationAST doc (req_operationName graphqlRequest) of
             None \<Rightarrow>
               \<lparr>isValid = False,
                validation_errors = Some [error_entry
                  (''Operation '' @ [dquote] @
                   (case req_operationName graphqlRequest of
                      None \<Rightarrow> ''unnamed''
                    | Some n \<Rightarrow> if n \<noteq> [] then n else ''unnamed'') @
                   [dquote] @ '' not found in query'')]\<rparr>
           | Some operationAST \<Rightarrow>
               if operation operationAST \<noteq> OpSubscription
               then \<lparr>isValid = False,
                     validation_errors = Some [error_entry
                       (''Operation must be a subscription, got '' @
                        operation_text (operation operationAST))]\<rparr>
               else
                 (let providedVariables =
                        (case req_variables graphqlRequest of None \<Rightarrow> [] | Some vs \<Rightarrow> vs);
                      missing = missingVariables (variableDefinitions operationAST) providedVariables
                  in if length missing > 0
                     then \<lparr>isValid = False,
                           validation_errors = Some (map (\<lambda>varName. error_entry
                             (''Variable '' @ [dquote] @ ''$'' @ varName @ [dquote] @
                              '' of required type was not provided.'')) missing)\<rparr>
                     else \<lparr>isValid = True, validation_errors = None\<rparr>)))"

subsection \<open>processSSESubscription\<close>

text \<open>
  What a run of \<open>processSSESubscription\<close> does to the response and to the subscription
  manager: the status and headers given to \<open>writeHead\<close>, the chunks written, whether the
  response was ended, the subscription ids passed to \<open>createSubscription\<close>, and whether
  the close and error handlers were registered.
\<close>

record sse_result =
  sse_status :: nat
  sse_headers :: "(string \<times> string) list"
  written :: "string list"
  ended :: bool
  createSubscriptionCalls :: "string list"
  handlersRegistered :: bool

definition cors_headers :: "http_server \<Rightarrow> string option \<Rightarrow> (string \<times> string) list" where
  "cors_headers srv requestOrigin =
     [(''Access-Control-Allow-Origin'',
        (case requestOrigin of
           Some origin \<Rightarrow>
             if origin \<noteq> [] \<and> origin \<in> set (corsOrigin srv) then origin
             else (case corsOrigin srv of
                     [] \<Rightarrow> ''http://localhost:3000''
                   | first # others \<Rightarrow> if first \<noteq> [] then first else ''http://localhost:3000'')
         | None \<Rightarrow>
             (case corsOrigin srv of
                [] \<Rightarrow> ''http://localhost:3000''
              | first # others \<Rightarrow> if first \<noteq> [] then first else ''http://localhost:3000''))),
      (''Access-Control-Allow-Methods'', ''GET, POST, OPTIONS''),
      (''Access-Control-Allow-Headers'', ''Content-Type, Authorization, Accept, Cache-Control''),
      (''Access-Control-Allow-Credentials'', ''true'')]"

definition newline :: char where
  "newline = CHR 0x0A"

definition processSSESubscription ::
  "http_server \<Rightarrow> graphql_request \<Rightarrow> string option \<Rightarrow> string \<Rightarrow> js_error option \<Rightarrow> sse_result" where
  "processSSESubscription srv graphqlRequest requestOrigin subscriptionId createFailure =
     (let validation = validateSubscription graphqlRequest
      in if \<not> isValid validation
         then \<lparr>sse_status = 400,
               sse_headers = (''Content-Type'', ''application/json'') # cors_headers srv requestOrigin,
               written = [JSON_stringify
                  (case validation_errors validation of
                     None \<Rightarrow> JObj []
                   | Some es \<Rightarrow> JObj [(''errors'', JArr es)])],
               ended = True,
               createSubscriptionCalls = [],
               handlersRegistered = False\<rparr>
         else
           (let sseHeaders =
                  [(''Content-Type'', ''text/event-stream; charset=utf-8''),
                   (''Cache-Control'', ''no-cache, no-store, must-revalidate''),
                   (''Pragma'', ''no-cache''),
                   (''Expires'', ''0''),
                   (''Connection'', ''keep-alive''),
                   (''X-Accel-Buffering'', ''no'')] @ cors_headers srv requestOrigin;
                established =
                  [''retry: 10000'' @ [newline],
                   ''event: next'' @ [newline],
                   ''data: {'' @ [dquote] @ ''data'' @ [dquote] @ '':{'' @ [dquote] @ ''message''
                     @ [dquote] @ '':'' @ [dquote]
                     @ ''Subscription established - waiting for events...'' @ [dquote] @ ''}}''
                     @ [newline, newline]]
            in case createFailure of
                 None \<Rightarrow>
                   \<lparr>sse_status = 200, sse_headers = sseHeaders, written = established,
                    ended = False,
                    createSubscriptionCalls = [subscriptionId],
                    handlersRegistered = True\<rparr>
               | Some subscriptionError \<Rightarrow>
                   \<lparr>sse_status = 200, sse_headers = sseHeaders,
                    written = established @
                      [''event: next'' @ [newline],
                       ''data: {'' @ [dquote] @ ''errors'' @ [dquote] @ '':[{'' @ [dquote]
                         @ ''message'' @ [dquote] @ '':'' @ [dquote]
                         @ ''Failed to create subscription: ''
                         @ (case subscriptionError of
                              ErrorObject m \<Rightarrow> m
                            | ThrownValue \<Rightarrow> ''Unknown error'')
                         @ [dquote] @ ''}]}'' @ [newline, newline],
                       ''event: complete'' @ [newline],
                       ''data: '' @ [newline, newline]],
                    ended = True,
                    createSubscriptionCalls = [subscriptionId],
                    handlersRegistered = False\<rparr>))"

section \<open>Decoding, to show that the encodings lose nothing\<close>

text \<open>
  The inverse of \<open>json_escape_char\<close> at the head of a string: the first code unit of the
  string that was escaped, and what follows its escape.
\<close>

fun unescape_head :: "string \<Rightarrow> (char \<times> string) option" where
  "unescape_head [] = None"
| "unescape_head [c] = (if c = backslash then None else Some (c, []))"
| "unescape_head (c # e # rest) =
     (if c \<noteq> backslash then Some (c, e # rest)
      else if e = dquote then Some (dquote, rest)
      else if e = backslash then Some (backslash, rest)
      else if e = CHR ''b'' then Some (char_of (8 :: nat), rest)
      else if e = CHR ''f'' then Some (char_of (12 :: nat), rest)
      else if e = CHR ''n'' then Some (char_of (10 :: nat), rest)
      else if e = CHR ''r'' then Some (char_of (13 :: nat), rest)
      else if e = CHR ''t'' then Some (char_of (9 :: nat), rest)
      else if e = CHR ''u'' then
        (case rest of
           h3 # h2 # h1 # h0 # rest' \<Rightarrow>
             (case unhex h1 of
                None \<Rightarrow> None
              | Some x \<Rightarrow>
                  (case unhex h0 of
                     None \<Rightarrow> None
                   | Some y \<Rightarrow> Some (char_of (16 * x + y), rest')))
         | _ \<Rightarrow> None)
      else None)"


text \<open>The list that \<open>normalizeUserContext\<close> serialises for roles or capabilities.\<close>

definition normal_list :: "string list option \<Rightarrow> string list" where
  "normal_list xs = (case xs of None \<Rightarrow> [] | Some ys \<Rightarrow> js_sort ys)"

section \<open>Concurrent callers of the execution cache\<close>

text \<open>
  Node runs one piece of JavaScript at a time. Between two \<open>await\<close>s a call runs
  undisturbed, so the callers of one cache interleave at these steps only: a caller runs
  the synchronous part of \<open>executeWithDeduplication\<close>; an executor's promise settles and
  \<open>executeAndCache\<close> finishes; a suspended caller resumes; the periodic sweep runs. Every
  order of such steps is allowed here, those that Node's scheduler produces among them.
  An executor is an opaque asynchronous call: it does not call back into the cache.
\<close>

datatype event =
    Call nat cacheable_subscription string int
  | Settle promise_id executor_outcome
  | Resume nat
  | Sweep int

datatype task_status =
    Suspended call_outcome
  | Finished execution_result

text \<open>
  The cache together with the callers so far: for each caller its subscription, its
  subscription id, and whether it is suspended or has received its result.
\<close>

record system =
  cstate :: cache_state
  tasks :: "nat \<rightharpoonup> (cacheable_subscription \<times> string \<times> task_status)"

definition step :: "system \<Rightarrow> event \<Rightarrow> system option" where
  "step s e =
     (case e of
        Call i sub sid now \<Rightarrow>
          (case tasks s i of
             Some started \<Rightarrow> None
           | None \<Rightarrow>
               (let (outcome, st') = executeWithDeduplication (cstate s) now sub sid
                in Some \<lparr>cstate = st',
                         tasks = (tasks s)(i \<mapsto> (sub, sid,
                           (case outcome of
                              Returned r \<Rightarrow> Finished r
                            | _ \<Rightarrow> Suspended outcome)))\<rparr>))
      | Settle p outcome \<Rightarrow>
          (case executeAndCache_settle (cstate s) p outcome of
             None \<Rightarrow> None
           | Some st' \<Rightarrow> Some (s\<lparr>cstate := st'\<rparr>))
      | Resume i \<Rightarrow>
          (case tasks s i of
             Some (sub, sid, Suspended suspended) \<Rightarrow>
               (case resume_call (cstate s) suspended sid of
                  None \<Rightarrow> None
                | Some (r, st') \<Rightarrow>
                    Some \<lparr>cstate = st', tasks = (tasks s)(i \<mapsto> (sub, sid, Finished r))\<rparr>)
           | _ \<Rightarrow> None)
      | Sweep now \<Rightarrow> Some (s\<lparr>cstate := cleanup (cstate s) now\<rparr>))"

fun run :: "system \<Rightarrow> event list \<Rightarrow> system option" where
  "run s [] = Some s"
| "run s (e # es) = (case step s e of None \<Rightarrow> None | Some s' \<Rightarrow> run s' es)"

text \<open>
  An event lies in the time window that starts at \<open>t0\<close> and is shorter than the
  time-to-live: a call for the key is made in the window, a sweep runs before its end.
\<close>

fun in_window :: "string \<Rightarrow> int \<Rightarrow> int \<Rightarrow> event \<Rightarrow> bool" where
  "in_window k t0 ttl (Call i sub sid now) =
     (generateCacheKey sub = k \<longrightarrow> t0 \<le> now \<and> now - t0 < ttl)"
| "in_window k t0 ttl (Sweep now) = (now - t0 < ttl)"
| "in_window k t0 ttl _ = True"

text \<open>
  At time \<open>t0\<close> a call for the key would miss the cache: no entry is cached for it, or
  the cached entry has expired.
\<close>

definition expired_before :: "string \<Rightarrow> int \<Rightarrow> cache_state \<Rightarrow> bool" where
  "expired_before k t0 st =
     (case cache st k of None \<Rightarrow> True | Some r \<Rightarrow> ttlMs st \<le> t0 - timestamp r)"

text \<open>
  Nothing of the key's past reaches into the window that opens at \<open>t0\<close>: a cached entry,
  if any, has expired, no execution is pending or running, and promise ids are fresh.
\<close>

definition nothing_live_for :: "string \<Rightarrow> int \<Rightarrow> cache_state \<Rightarrow> bool" where
  "nothing_live_for k t0 st =
     (expired_before k t0 st \<and> pendingExecutions st k = None \<and>
      (\<forall>p start. promises st p \<noteq> Some (Running k start)) \<and>
      (\<forall>q. nextPromise st \<le> q \<longrightarrow> promises st q = None))"

text \<open>The callers for a key, and the results they have received.\<close>

definition callers_of :: "string \<Rightarrow> system \<Rightarrow> nat set" where
  "callers_of k s =
     {i. \<exists>sub sid progress. tasks s i = Some (sub, sid, progress) \<and> generateCacheKey sub = k}"

definition received :: "system \<Rightarrow> nat \<Rightarrow> execution_result option" where
  "received s i =
     (case tasks s i of
        Some (sub, sid, Finished r) \<Rightarrow> Some r
      | _ \<Rightarrow> None)"

definition suspended_call :: "system \<Rightarrow> nat \<Rightarrow> (call_outcome \<times> string) option" where
  "suspended_call s i =
     (case tasks s i of
        Some (sub, sid, Suspended suspended) \<Rightarrow> Some (suspended, sid)
      | _ \<Rightarrow> None)"

text \<open>
  The invariant behind single flight, for a key \<open>k\<close>, a window start \<open>t0\<close>, and \<open>c0\<close>
  executor invocations for the key before the window: either nobody has called yet; or
  one execution is in flight and every caller waits for its promise; or it has settled
  with a result that is cached, and every caller has that result or waits for the promise.
  Until the execution settles, the cache holds for the key at most an entry that had
  expired when the window opened.
\<close>

definition waits_for :: "string \<Rightarrow> promise_id \<Rightarrow> task_status \<Rightarrow> bool" where
  "waits_for k p progress =
     (progress = Suspended (AwaitOwn k p) \<or> progress = Suspended (AwaitJoined k p))"

fun outcome_key :: "call_outcome \<Rightarrow> string option" where
  "outcome_key (Returned r) = None"
| "outcome_key (AwaitOwn key p) = Some key"
| "outcome_key (AwaitJoined key p) = Some key"

definition idle_phase :: "string \<Rightarrow> int \<Rightarrow> nat \<Rightarrow> system \<Rightarrow> bool" where
  "idle_phase k t0 c0 s =
     (expired_before k t0 (cstate s) \<and> pendingExecutions (cstate s) k = None \<and>
      (\<forall>p start. promises (cstate s) p \<noteq> Some (Running k start)) \<and>
      count_list (executorCalls (cstate s)) k = c0 \<and>
      callers_of k s = {})"

definition flight_phase :: "string \<Rightarrow> int \<Rightarrow> nat \<Rightarrow> promise_id \<Rightarrow> system \<Rightarrow> bool" where
  "flight_phase k t0 c0 p s =
     (expired_before k t0 (cstate s) \<and> 0 < ttlMs (cstate s) \<and>
      (\<exists>pe. pendingExecutions (cstate s) k = Some pe \<and> promise pe = p) \<and>
      (\<exists>start. promises (cstate s) p = Some (Running k start) \<and> t0 \<le> start) \<and>
      (\<forall>q start. promises (cstate s) q = Some (Running k start) \<longrightarrow> q = p) \<and>
      count_list (executorCalls (cstate s)) k = Suc c0 \<and>
      callers_of k s \<noteq> {} \<and>
      (\<forall>i sub sid progress. tasks s i = Some (sub, sid, progress) \<and> generateCacheKey sub = k
         \<longrightarrow> waits_for k p progress))"

definition settled_phase ::
  "string \<Rightarrow> int \<Rightarrow> nat \<Rightarrow> promise_id \<Rightarrow> execution_result \<Rightarrow> system \<Rightarrow> bool" where
  "settled_phase k t0 c0 p r s =
     (cache (cstate s) k = Some r \<and> t0 \<le> timestamp r \<and>
      promises (cstate s) p = Some (Fulfilled r) \<and>
      (\<forall>pe. pendingExecutions (cstate s) k = Some pe \<longrightarrow> promise pe = p) \<and>
      (\<forall>q start. promises (cstate s) q \<noteq> Some (Running k start)) \<and>
      count_list (executorCalls (cstate s)) k = Suc c0 \<and>
      callers_of k s \<noteq> {} \<and>
      (\<forall>i sub sid progress. tasks s i = Some (sub, sid, progress) \<and> generateCacheKey sub = k
         \<longrightarrow> waits_for k p progress \<or> progress = Finished r))"

definition single_flight_inv :: "string \<Rightarrow> int \<Rightarrow> nat \<Rightarrow> int \<Rightarrow> system \<Rightarrow> bool" where
  "single_flight_inv k t0 c0 ttl s =
     (ttlMs (cstate s) = ttl \<and>
      (\<forall>q. nextPromise (cstate s) \<le> q \<longrightarrow> promises (cstate s) q = None) \<and>
      (\<forall>i sub sid suspended. tasks s i = Some (sub, sid, Suspended suspended)
         \<longrightarrow> outcome_key suspended = Some (generateCacheKey sub)) \<and>
      (idle_phase k t0 c0 s \<or> (\<exists>p. flight_phase k t0 c0 p s) \<or> (\<exists>p r. settled_phase k t0 c0 p r s)))"

section \<open>Properties of the execution cache\<close>

subsection \<open>Cache keys do not depend on the order of roles and capabilities\<close>

lemma js_sort_mset: "mset xs = mset ys \<Longrightarrow> js_sort xs = js_sort ys"
proof -
  assume eq: "mset xs = mset ys"
  have "mset (sort ys) = mset xs"
    using eq by simp
  then have "sort xs = sort ys"
    by (rule properties_for_sort) simp
  then show ?thesis
    by (simp add: js_sort_def)
qed

lemma sorted_or_empty_perm:
  "rel_option (\<lambda>a b. mset a = mset b) xs ys \<Longrightarrow> sorted_or_empty xs = sorted_or_empty ys"
  by (cases xs; cases ys) (auto simp: sorted_or_empty_def dest: js_sort_mset)

text \<open>
  Claim C9. Two subscriptions with the same query, variables and operation name, whose
  user contexts agree on \<open>userId\<close> and \<open>isAuthenticated\<close> and whose role lists and
  capability lists are permutations of each other, get the same cache key.
\<close>

theorem cache_key_permutation_invariant:
  assumes "query s1 = query s2"
    and "variables s1 = variables s2"
    and "operationName s1 = operationName s2"
    and "userContext s1 = Some u1"
    and "userContext s2 = Some u2"
    and "userId u1 = userId u2"
    and "isAuthenticated u1 = isAuthenticated u2"
    and "rel_option (\<lambda>a b. mset a = mset b) (userRoles u1) (userRoles u2)"
    and "rel_option (\<lambda>a b. mset a = mset b) (capabilities u1) (capabilities u2)"
  shows "generateCacheKey s1 = generateCacheKey s2"
proof -
  have roles: "sorted_or_empty (userRoles u1) = sorted_or_empty (userRoles u2)"
    using assms(8) by (rule sorted_or_empty_perm)
  have caps: "sorted_or_empty (capabilities u1) = sorted_or_empty (capabilities u2)"
    using assms(9) by (rule sorted_or_empty_perm)
  have norm: "normalizeUserContext (userContext s1) = normalizeUserContext (userContext s2)"
    using assms(4-7) roles caps by (simp add: normalizeUserContext_def)
  have payload: "cache_payload s1 = cache_payload s2"
    using assms(1-3) norm by (simp add: cache_payload_def)
  have ind: "userIndicator (userContext s1) = userIndicator (userContext s2)"
    using assms(4-7) by (simp add: userIndicator_def)
  show ?thesis
    using payload ind by (simp add: generateCacheKey_def)
qed

theorem cache_key_permutation_invariant_witness:
  "mset [''editor'', ''admin''] = mset [''admin'', ''editor''] \<and>
   generateCacheKey
     \<lparr>query = ''subscription { postUpdated { id } }'', variables = JObj [],
      operationName = None,
      userContext = Some \<lparr>userId = Some (UserIdNum 7), userRoles = Some [''editor'', ''admin''],
        capabilities = Some [''read'', ''edit_posts''], isAuthenticated = True\<rparr>\<rparr> =
   generateCacheKey
     \<lparr>query = ''subscription { postUpdated { id } }'', variables = JObj [],
      operationName = None,
      userContext = Some \<lparr>userId = Some (UserIdNum 7), userRoles = Some [''admin'', ''editor''],
        capabilities = Some [''edit_posts'', ''read''], isAuthenticated = True\<rparr>\<rparr>"
proof -
  have r: "mset [''editor'', ''admin''] = mset [''admin'', ''editor'']"
    by simp
  have c: "mset [''read'', ''edit_posts''] = mset [''edit_posts'', ''read'']"
    by simp
  show ?thesis
    using r
      cache_key_permutation_invariant
        [of "\<lparr>query = ''subscription { postUpdated { id } }'', variables = JObj [],
              operationName = None,
              userContext = Some \<lparr>userId = Some (UserIdNum 7),
                userRoles = Some [''editor'', ''admin''],
                capabilities = Some [''read'', ''edit_posts''], isAuthenticated = True\<rparr>\<rparr>"
            "\<lparr>query = ''subscription { postUpdated { id } }'', variables = JObj [],
              operationName = None,
              userContext = Some \<lparr>userId = Some (UserIdNum 7),
                userRoles = Some [''admin'', ''editor''],
                capabilities = Some [''edit_posts'', ''read''], isAuthenticated = True\<rparr>\<rparr>"
            "\<lparr>userId = Some (UserIdNum 7), userRoles = Some [''editor'', ''admin''],
              capabilities = Some [''read'', ''edit_posts''], isAuthenticated = True\<rparr>"
            "\<lparr>userId = Some (UserIdNum 7), userRoles = Some [''admin'', ''editor''],
              capabilities = Some [''edit_posts'', ''read''], isAuthenticated = True\<rparr>"]
    by (simp add: c)
qed

subsection \<open>Cache hits\<close>

text \<open>
  Claim C5. When the cache holds an entry under the subscription's key whose age at the
  time of the call is below the time-to-live, the call returns that entry; the state is
  unchanged, so no executor is invoked.
\<close>

theorem live_cache_entry_is_returned:
  assumes "cache st (generateCacheKey sub) = Some r"
    and "now - timestamp r < ttlMs st"
  shows "executeWithDeduplication st now sub sid = (Returned r, st) \<and>
         executorCalls (snd (executeWithDeduplication st now sub sid)) = executorCalls st"
  using assms by (simp add: executeWithDeduplication_def Let_def)

theorem live_cache_entry_is_returned_witness:
  "cache ((new_cache 5000)\<lparr>cache :=
       [generateCacheKey \<lparr>query = ''subscription { postUpdated { id } }'', variables = JObj [],
          operationName = None, userContext = None\<rparr>
        \<mapsto> \<lparr>data = JStr ''x'', errors = None, timestamp = 1000\<rparr>]\<rparr>)
     (generateCacheKey \<lparr>query = ''subscription { postUpdated { id } }'', variables = JObj [],
        operationName = None, userContext = None\<rparr>)
     = Some \<lparr>data = JStr ''x'', errors = None, timestamp = 1000\<rparr> \<and>
   (5999 :: int) - timestamp \<lparr>data = JStr ''x'', errors = None, timestamp = 1000\<rparr>
     < ttlMs ((new_cache 5000)\<lparr>cache :=
       [generateCacheKey \<lparr>query = ''subscription { postUpdated { id } }'', variables = JObj [],
          operationName = None, userContext = None\<rparr>
        \<mapsto> \<lparr>data = JStr ''x'', errors = None, timestamp = 1000\<rparr>]\<rparr>) \<and>
   fst (executeWithDeduplication
     ((new_cache 5000)\<lparr>cache :=
       [generateCacheKey \<lparr>query = ''subscription { postUpdated { id } }'', variables = JObj [],
          operationName = None, userContext = None\<rparr>
        \<mapsto> \<lparr>data = JStr ''x'', errors = None, timestamp = 1000\<rparr>]\<rparr>)
     5999
     \<lparr>query = ''subscription { postUpdated { id } }'', variables = JObj [],
        operationName = None, userContext = None\<rparr>
     ''sub_2'')
     = Returned \<lparr>data = JStr ''x'', errors = None, timestamp = 1000\<rparr>"
proof -
  let ?sub = "\<lparr>query = ''subscription { postUpdated { id } }'', variables = JObj [],
        operationName = None, userContext = None\<rparr>"
  let ?r = "\<lparr>data = JStr ''x'', errors = None, timestamp = 1000\<rparr>"
  let ?st = "(new_cache 5000)\<lparr>cache := [generateCacheKey ?sub \<mapsto> ?r]\<rparr>"
  have h1: "cache ?st (generateCacheKey ?sub) = Some ?r"
    by simp
  have h2: "(5999 :: int) - timestamp ?r < ttlMs ?st"
    by (simp add: new_cache_def)
  from live_cache_entry_is_returned [OF h1 h2, of "''sub_2''"]
  have "fst (executeWithDeduplication ?st 5999 ?sub ''sub_2'') = Returned ?r"
    by simp
  with h1 h2 show ?thesis
    by blast
qed

subsection \<open>Failed executions are cached\<close>

lemma started_call:
  assumes "executeWithDeduplication st now sub sid = (AwaitOwn key p, st1)"
  shows "key = generateCacheKey sub \<and> promises st1 p = Some (Running key now)
     \<and> ttlMs st1 = ttlMs st"
  using assms
  by (auto simp: executeWithDeduplication_def executeAndCache_start_def Let_def
      split: option.splits if_splits)

text \<open>
  Claim C6. Let a call start an execution (no live entry, nothing pending). When the
  executor's promise rejects, \<open>executeAndCache\<close> settles, the suspended call resumes and
  returns a result (it does not reject) whose \<open>data\<close> is \<open>null\<close> and whose \<open>errors\<close> is one
  error with the code \<open>EXECUTION_ERROR\<close>; the result is stored under the subscription's
  key; and every later call for the subscription made less than the time-to-live after
  the start of the execution returns the same result and leaves the state unchanged (no
  executor is invoked).
\<close>

theorem rejected_execution_is_cached:
  assumes "executeWithDeduplication st now sub sid = (AwaitOwn key p, st1)"
  shows "\<exists>st2 st3.
      executeAndCache_settle st1 p (Rejects e) = Some st2 \<and>
      resume_call st2 (AwaitOwn key p) sid = Some (errorResult e now, st3) \<and>
      data (errorResult e now) = JNull \<and>
      errors (errorResult e now) =
        Some [JObj [(''message'', JStr (error_message e)),
                    (''extensions'', JObj [(''code'', JStr ''EXECUTION_ERROR'')])]] \<and>
      cache st2 (generateCacheKey sub) = Some (errorResult e now) \<and>
      cache st3 (generateCacheKey sub) = Some (errorResult e now) \<and>
      (\<forall>now' sid'. now' - now < ttlMs st \<longrightarrow>
         executeWithDeduplication st3 now' sub sid' = (Returned (errorResult e now), st3) \<and>
         executeWithDeduplication st2 now' sub sid' = (Returned (errorResult e now), st2))"
proof -
  from started_call [OF assms]
  have key: "key = generateCacheKey sub"
    and run: "promises st1 p = Some (Running key now)"
    and ttl: "ttlMs st1 = ttlMs st"
    by simp_all
  define st2 where
    "st2 = st1\<lparr>cache := (cache st1)(key \<mapsto> errorResult e now),
               promises := (promises st1)(p \<mapsto> Fulfilled (errorResult e now))\<rparr>"
  define st3 where "st3 = st2\<lparr>pendingExecutions := (pendingExecutions st2)(key := None)\<rparr>"
  have settle: "executeAndCache_settle st1 p (Rejects e) = Some st2"
    using run by (simp add: executeAndCache_settle_def settled_result_def st2_def Let_def)
  have resume: "resume_call st2 (AwaitOwn key p) sid = Some (errorResult e now, st3)"
    by (simp add: resume_call_def st2_def st3_def)
  have c2: "cache st2 (generateCacheKey sub) = Some (errorResult e now)"
    by (simp add: st2_def key)
  have c3: "cache st3 (generateCacheKey sub) = Some (errorResult e now)"
    by (simp add: st3_def st2_def key)
  have t2: "ttlMs st2 = ttlMs st" and t3: "ttlMs st3 = ttlMs st"
    using ttl by (simp_all add: st2_def st3_def)
  have ts: "timestamp (errorResult e now) = now"
    by (simp add: errorResult_def)
  have later: "executeWithDeduplication st3 now' sub sid' = (Returned (errorResult e now), st3) \<and>
         executeWithDeduplication st2 now' sub sid' = (Returned (errorResult e now), st2)"
    if "now' - now < ttlMs st" for now' sid'
    using that c2 c3 t2 t3 ts by (simp add: executeWithDeduplication_def Let_def)
  have shape: "data (errorResult e now) = JNull"
    "errors (errorResult e now) =
        Some [JObj [(''message'', JStr (error_message e)),
                    (''extensions'', JObj [(''code'', JStr ''EXECUTION_ERROR'')])]]"
    by (simp_all add: errorResult_def)
  show ?thesis
    using settle resume shape c2 c3 later by blast
qed

theorem rejected_execution_is_cached_witness:
  "fst (executeWithDeduplication (new_cache 5000) 100
      \<lparr>query = ''subscription { postUpdated { id } }'', variables = JObj [],
       operationName = None, userContext = None\<rparr> ''sub_1'')
     = AwaitOwn (generateCacheKey
        \<lparr>query = ''subscription { postUpdated { id } }'', variables = JObj [],
         operationName = None, userContext = None\<rparr>) 0 \<and>
   (\<exists>st2 st3.
      executeAndCache_settle
        (snd (executeWithDeduplication (new_cache 5000) 100
          \<lparr>query = ''subscription { postUpdated { id } }'', variables = JObj [],
           operationName = None, userContext = None\<rparr> ''sub_1''))
        0 (Rejects (ErrorObject ''upstream down'')) = Some st2 \<and>
      resume_call st2
        (AwaitOwn (generateCacheKey
          \<lparr>query = ''subscription { postUpdated { id } }'', variables = JObj [],
           operationName = None, userContext = None\<rparr>) 0) ''sub_1''
        = Some (errorResult (ErrorObject ''upstream down'') 100, st3) \<and>
      executeWithDeduplication st3 5099
        \<lparr>query = ''subscription { postUpdated { id } }'', variables = JObj [],
         operationName = None, userContext = None\<rparr> ''sub_2''
        = (Returned (errorResult (ErrorObject ''upstream down'') 100), st3))"
proof -
  let ?sub = "\<lparr>query = ''subscription { postUpdated { id } }'', variables = JObj [],
       operationName = None, userContext = None\<rparr>"
  let ?call = "executeWithDeduplication (new_cache 5000) 100 ?sub ''sub_1''"
  have start: "fst ?call = AwaitOwn (generateCacheKey ?sub) 0"
    by (simp add: executeWithDeduplication_def executeAndCache_start_def new_cache_def Let_def)
  then have h: "?call = (AwaitOwn (generateCacheKey ?sub) 0, snd ?call)"
    by (metis prod.collapse)
  have ttl: "(5099 :: int) - 100 < ttlMs (new_cache 5000)"
    by (simp add: new_cache_def)
  from rejected_execution_is_cached [OF h, of "ErrorObject ''upstream down''"] ttl
  have "\<exists>st2 st3.
      executeAndCache_settle (snd ?call) 0 (Rejects (ErrorObject ''upstream down'')) = Some st2 \<and>
      resume_call st2 (AwaitOwn (generateCacheKey ?sub) 0) ''sub_1''
        = Some (errorResult (ErrorObject ''upstream down'') 100, st3) \<and>
      executeWithDeduplication st3 5099 ?sub ''sub_2''
        = (Returned (errorResult (ErrorObject ''upstream down'') 100), st3)"
    by blast
  with start show ?thesis
    by blast
qed

section \<open>Properties of the webhook gate\<close>

subsection \<open>Hexadecimal decoding and splitting\<close>

lemma unhex_hex_digit: "n < 16 \<Longrightarrow> unhex (hex_digit n) = Some n"
proof -
  have "list_all (\<lambda>k. unhex (hex_digit k) = Some k) [0..<16]"
    by code_simp
  then have "\<forall>k \<in> set [0..<16]. unhex (hex_digit k) = Some k"
    by (simp only: list_all_iff)
  moreover assume "n < 16"
  ultimately show ?thesis
    by simp
qed

lemma hex_decode_hex_byte: "hex_decode (hex_byte b @ rest) = b # hex_decode rest"
proof -
  have hi: "unat b div 16 < 16"
  proof -
    have "unat b < 256"
      using unsigned_less [of b, where ?'a = nat] by simp
    then show ?thesis
      by arith
  qed
  have lo: "unat b mod 16 < 16"
    by simp
  have "(of_nat (16 * (unat b div 16) + unat b mod 16) :: byte) = of_nat (unat b)"
    by (simp only: mult_div_mod_eq)
  then show ?thesis
    by (simp add: hex_byte_def unhex_hex_digit [OF hi] unhex_hex_digit [OF lo])
qed

lemma hex_decode_to_hex: "hex_decode (to_hex bs) = bs"
  by (induction bs) (simp_all add: to_hex_def hex_decode_hex_byte)

lemma js_split_no_sep: "sep \<notin> set s \<Longrightarrow> js_split sep s = [s]"
  by (induction s) auto

lemma js_split_nonempty: "js_split sep s \<noteq> []"
  by (induction s) (auto split: list.splits)

lemma js_split_head:
  "\<exists>rest. js_split sep s = takeWhile (\<lambda>c. c \<noteq> sep) s # rest"
  by (induction s) (auto split: list.splits)

lemma js_split_append_sep:
  "sep \<notin> set a \<Longrightarrow> js_split sep (a @ sep # s) = a # js_split sep s"
  by (induction a) (auto split: list.splits simp: js_split_nonempty)


subsection \<open>Signatures that are rejected\<close>

lemma validate_missing_header:
  assumes "NODE_ENV env = Some ''production'' \<or> webhookSecret env \<noteq> dev_secret"
  shows "\<not> validateWebhookSignature env None bodyText"
  using assms by (auto simp: validateWebhookSignature_def)

lemma validate_wrong_algorithm:
  assumes enforced: "NODE_ENV env = Some ''production'' \<or> webhookSecret env \<noteq> dev_secret"
    and form: "take 7 h \<noteq> ''sha256=''"
  shows "\<not> validateWebhookSignature env (Some h) bodyText"
proof (cases "CHR ''='' \<in> set h")
  case False
  then have "js_split CHR ''='' h = [h]"
    by (rule js_split_no_sep)
  then show ?thesis
    using enforced by (auto simp: validateWebhookSignature_def)
next
  case True
  obtain rest where split: "js_split CHR ''='' h = takeWhile (\<lambda>c. c \<noteq> CHR ''='') h # rest"
    using js_split_head by blast
  have alg: "takeWhile (\<lambda>c. c \<noteq> CHR ''='') h \<noteq> ''sha256''"
  proof
    assume eq: "takeWhile (\<lambda>c. c \<noteq> CHR ''='') h = ''sha256''"
    from True obtain a b where h: "h = a @ CHR ''='' # b" and a: "CHR ''='' \<notin> set a"
      by (meson split_list_first)
    have "takeWhile (\<lambda>c. c \<noteq> CHR ''='') h = a"
      unfolding h using a by (induction a) auto
    with eq have "h = ''sha256'' @ CHR ''='' # b"
      using h by simp
    then have "take 7 h = ''sha256=''"
      by simp
    with form show False
      by simp
  qed
  show ?thesis
    using enforced alg split
    by (auto simp: validateWebhookSignature_def split: list.splits)
qed

lemma validate_wrong_digest:
  assumes enforced: "NODE_ENV env = Some ''production'' \<or> webhookSecret env \<noteq> dev_secret"
    and differs: "hex_decode (takeWhile (\<lambda>c. c \<noteq> CHR ''='') sig)
        \<noteq> hmac_sha256 (utf8_encode (webhookSecret env)) (utf8_encode bodyText)"
  shows "\<not> validateWebhookSignature env (Some (''sha256='' @ sig)) bodyText"
proof -
  obtain rest where split: "js_split CHR ''='' sig = takeWhile (\<lambda>c. c \<noteq> CHR ''='') sig # rest"
    using js_split_head by blast
  have expected: "hex_decode (hmac_sha256_hex (webhookSecret env) bodyText)
      = hmac_sha256 (utf8_encode (webhookSecret env)) (utf8_encode bodyText)"
    by (simp add: hmac_sha256_hex_def hex_decode_to_hex)
  show ?thesis
    using enforced differs
    by (simp add: validateWebhookSignature_def split expected Let_def)
qed

lemma rejected_signature_response:
  assumes "decoded req = Some eventData"
    and "\<not> validateWebhookSignature env (signatureHeader req) (rawBody req)"
  shows "status (response (handleWebhookEvent env srv req now)) = 401 \<and>
         publishCalls (handleWebhookEvent env srv req now) = []"
  using assms by (simp add: handleWebhookEvent_def json_response_def)

text \<open>
  Claim C3, as amended. Signature validation is enforced when \<open>NODE_ENV\<close> is
  \<open>production\<close> or a secret other than the built-in development secret is configured.
  Then, for a body that \<open>JSON.parse\<close> accepts, a request whose signature header is missing,
  or does not start with \<open>sha256=\<close>, or whose signature (the text after \<open>sha256=\<close> up to
  the next \<open>=\<close>) does not decode from hexadecimal to the HMAC-SHA256 of the body under
  the secret, is answered with 401 and nothing is published.
\<close>

theorem bad_signature_is_rejected:
  assumes enforced: "NODE_ENV env = Some ''production'' \<or> webhookSecret env \<noteq> dev_secret"
    and parsed: "decoded req = Some eventData"
    and bad: "signatureHeader req = None
      \<or> (\<exists>h. signatureHeader req = Some h \<and> take 7 h \<noteq> ''sha256='')
      \<or> (\<exists>sig. signatureHeader req = Some (''sha256='' @ sig) \<and>
            hex_decode (takeWhile (\<lambda>c. c \<noteq> CHR ''='') sig)
              \<noteq> hmac_sha256 (utf8_encode (webhookSecret env)) (utf8_encode (rawBody req)))"
  shows "status (response (handleWebhookEvent env srv req now)) = 401 \<and>
         publishCalls (handleWebhookEvent env srv req now) = []"
proof -
  have "\<not> validateWebhookSignature env (signatureHeader req) (rawBody req)"
    using bad validate_missing_header [OF enforced] validate_wrong_algorithm [OF enforced]
      validate_wrong_digest [OF enforced]
    by metis
  with parsed show ?thesis
    by (rule rejected_signature_response)
qed

text \<open>
  Claim C3 as stated fails in development: with \<open>NODE_ENV\<close> and \<open>WEBHOOK_SECRET\<close> unset, a
  request without a signature header is answered with 200 and its channel is published.
\<close>

theorem unsigned_webhook_accepted_in_development:
  "signatureHeader
     \<lparr>signatureHeader = None,
      rawBody = JSON_stringify (JObj [(''node_type'', JStr ''post''), (''action'', JStr ''UPDATE''),
        (''node_id'', JStr ''5''), (''channels'', JArr [JStr ''postUpdated''])]),
      decoded = Some (JObj [(''node_type'', JStr ''post''), (''action'', JStr ''UPDATE''),
        (''node_id'', JStr ''5''), (''channels'', JArr [JStr ''postUpdated''])])\<rparr> = None \<and>
   status (response (handleWebhookEvent \<lparr>NODE_ENV = None, WEBHOOK_SECRET = None\<rparr>
     (HTTPServer_new [] \<lparr>publish_throws = (\<lambda>c. False)\<rparr>)
     \<lparr>signatureHeader = None,
      rawBody = JSON_stringify (JObj [(''node_type'', JStr ''post''), (''action'', JStr ''UPDATE''),
        (''node_id'', JStr ''5''), (''channels'', JArr [JStr ''postUpdated''])]),
      decoded = Some (JObj [(''node_type'', JStr ''post''), (''action'', JStr ''UPDATE''),
        (''node_id'', JStr ''5''), (''channels'', JArr [JStr ''postUpdated''])])\<rparr> 1700)) = 200 \<and>
   publishCalls (handleWebhookEvent \<lparr>NODE_ENV = None, WEBHOOK_SECRET = None\<rparr>
     (HTTPServer_new [] \<lparr>publish_throws = (\<lambda>c. False)\<rparr>)
     \<lparr>signatureHeader = None,
      rawBody = JSON_stringify (JObj [(''node_type'', JStr ''post''), (''action'', JStr ''UPDATE''),
        (''node_id'', JStr ''5''), (''channels'', JArr [JStr ''postUpdated''])]),
      decoded = Some (JObj [(''node_type'', JStr ''post''), (''action'', JStr ''UPDATE''),
        (''node_id'', JStr ''5''), (''channels'', JArr [JStr ''postUpdated''])])\<rparr> 1700)
     = [(JStr ''postUpdated'',
         JObj [(''id'', JStr ''5''), (''action'', JStr ''UPDATE''), (''timestamp'', JNum 1700)])]"
  by (simp add: handleWebhookEvent_def validateWebhookSignature_def webhookSecret_def
      HTTPServer_new_def json_response_def subscriptionPayload_def own_property_order_def
      is_index_key_def is_digit_def Let_def)

theorem bad_signature_is_rejected_witness:
  "NODE_ENV \<lparr>NODE_ENV = Some ''production'', WEBHOOK_SECRET = Some ''s3cret''\<rparr> = Some ''production'' \<and>
   take 7 ''sha1=abcdef'' \<noteq> ''sha256='' \<and>
   status (response (handleWebhookEvent
     \<lparr>NODE_ENV = Some ''production'', WEBHOOK_SECRET = Some ''s3cret''\<rparr>
     (HTTPServer_new [] \<lparr>publish_throws = (\<lambda>c. False)\<rparr>)
     \<lparr>signatureHeader = Some ''sha1=abcdef'',
      rawBody = JSON_stringify (JObj [(''node_type'', JStr ''post''), (''action'', JStr ''UPDATE''),
        (''node_id'', JStr ''5''), (''channels'', JArr [JStr ''postUpdated''])]),
      decoded = Some (JObj [(''node_type'', JStr ''post''), (''action'', JStr ''UPDATE''),
        (''node_id'', JStr ''5''), (''channels'', JArr [JStr ''postUpdated''])])\<rparr> 1700)) = 401 \<and>
   publishCalls (handleWebhookEvent
     \<lparr>NODE_ENV = Some ''production'', WEBHOOK_SECRET = Some ''s3cret''\<rparr>
     (HTTPServer_new [] \<lparr>publish_throws = (\<lambda>c. False)\<rparr>)
     \<lparr>signatureHeader = Some ''sha1=abcdef'',
      rawBody = JSON_stringify (JObj [(''node_type'', JStr ''post''), (''action'', JStr ''UPDATE''),
        (''node_id'', JStr ''5''), (''channels'', JArr [JStr ''postUpdated''])]),
      decoded = Some (JObj [(''node_type'', JStr ''post''), (''action'', JStr ''UPDATE''),
        (''node_id'', JStr ''5''), (''channels'', JArr [JStr ''postUpdated''])])\<rparr> 1700) = []"
proof -
  let ?env = "\<lparr>NODE_ENV = Some ''production'', WEBHOOK_SECRET = Some ''s3cret''\<rparr>"
  let ?ev = "JObj [(''node_type'', JStr ''post''), (''action'', JStr ''UPDATE''),
        (''node_id'', JStr ''5''), (''channels'', JArr [JStr ''postUpdated''])]"
  let ?req = "\<lparr>signatureHeader = Some ''sha1=abcdef'', rawBody = JSON_stringify ?ev,
      decoded = Some ?ev\<rparr>"
  have e: "NODE_ENV ?env = Some ''production'' \<or> webhookSecret ?env \<noteq> dev_secret"
    by simp
  have p: "decoded ?req = Some ?ev"
    by simp
  have f: "take 7 ''sha1=abcdef'' \<noteq> ''sha256=''"
    by simp
  then have b: "signatureHeader ?req = None
      \<or> (\<exists>h. signatureHeader ?req = Some h \<and> take 7 h \<noteq> ''sha256='')
      \<or> (\<exists>sig. signatureHeader ?req = Some (''sha256='' @ sig) \<and>
            hex_decode (takeWhile (\<lambda>c. c \<noteq> CHR ''='') sig)
              \<noteq> hmac_sha256 (utf8_encode (webhookSecret ?env)) (utf8_encode (rawBody ?req)))"
    by simp
  from bad_signature_is_rejected [OF e p b] f show ?thesis
    by simp
qed

subsection \<open>The development bypass\<close>

text \<open>
  Claim C10. When \<open>NODE_ENV\<close> is not \<open>production\<close> and \<open>WEBHOOK_SECRET\<close> is unset,
  \<open>validateWebhookSignature\<close> returns true for every body and every signature header,
  absent ones included, and the webhook handler never answers 401.
\<close>

theorem dev_mode_skips_signature_validation:
  assumes "NODE_ENV env \<noteq> Some ''production''"
    and "WEBHOOK_SECRET env = None"
  shows "validateWebhookSignature env hdr bodyText \<and>
         status (response (handleWebhookEvent env srv req now)) \<noteq> 401"
proof -
  have ok: "validateWebhookSignature env h b" for h b
    using assms by (simp add: validateWebhookSignature_def webhookSecret_def)
  have "status (response (handleWebhookEvent env srv req now)) \<in> {200, 400, 500}"
    by (simp add: handleWebhookEvent_def ok internal_error_def json_response_def Let_def
        split: option.splits json.splits prod.splits)
  then show ?thesis
    using ok by auto
qed

theorem dev_mode_skips_signature_validation_witness:
  "NODE_ENV \<lparr>NODE_ENV = Some ''development'', WEBHOOK_SECRET = None\<rparr> \<noteq> Some ''production'' \<and>
   WEBHOOK_SECRET \<lparr>NODE_ENV = Some ''development'', WEBHOOK_SECRET = None\<rparr> = None \<and>
   validateWebhookSignature \<lparr>NODE_ENV = Some ''development'', WEBHOOK_SECRET = None\<rparr>
     (Some ''sha256=00'') ''{}'' \<and>
   status (response (handleWebhookEvent \<lparr>NODE_ENV = Some ''development'', WEBHOOK_SECRET = None\<rparr>
     (HTTPServer_new [] \<lparr>publish_throws = (\<lambda>c. False)\<rparr>)
     \<lparr>signatureHeader = Some ''sha256=00'', rawBody = ''{}'', decoded = Some (JObj [])\<rparr> 1700))
     \<noteq> 401"
proof -
  let ?env = "\<lparr>NODE_ENV = Some ''development'', WEBHOOK_SECRET = None\<rparr>"
  have h1: "NODE_ENV ?env \<noteq> Some ''production''"
    by simp
  have h2: "WEBHOOK_SECRET ?env = None"
    by simp
  from dev_mode_skips_signature_validation [OF h1 h2] h1 h2 show ?thesis
    by blast
qed

subsection \<open>Payloads without channels\<close>

text \<open>
  Claim C8, as amended. On a server whose Redis client exists (the constructor creates
  it), a webhook that passes signature validation, whose decoded payload has a truthy
  \<open>node_id\<close>, a non-empty string as \<open>action\<close>, and a truthy \<open>node_type\<close> that the template
  literal can convert to a string (anything but an object with an own \<open>toString\<close>
  property, or an array holding such an object), and whose \<open>channels\<close> is absent, not an
  array, or an empty array, is answered with 400 and nothing is published.
\<close>

theorem missing_channels_is_rejected:
  assumes "decoded req = Some eventData"
    and "validateWebhookSignature env (signatureHeader req) (rawBody req)"
    and "js_truthy (js_get eventData ''node_type'')"
    and "js_String (js_get eventData ''node_type'') = Some typeText"
    and "js_get eventData ''action'' = JStr a"
    and "a \<noteq> []"
    and "js_truthy (js_get eventData ''node_id'')"
    and "redisClient srv = Some rc"
    and "\<not> (\<exists>c cs. js_get eventData ''channels'' = JArr (c # cs))"
  shows "status (response (handleWebhookEvent env srv req now)) = 400 \<and>
         publishCalls (handleWebhookEvent env srv req now) = []"
proof -
  have obj: "eventData \<noteq> JNull"
    using assms(3) by auto
  have none: "cs = []" if "js_get eventData ''channels'' = JArr cs" for cs
    using that assms(9) by (cases cs) auto
  show ?thesis
    using obj assms(1-8) none
    by (cases "js_get eventData ''channels''")
       (auto simp: handleWebhookEvent_def json_response_def Let_def)
qed

theorem missing_channels_is_rejected_witness:
  "js_String (js_get (JObj [(''node_type'', JStr ''post''), (''action'', JStr ''UPDATE''),
        (''node_id'', JStr ''5'')]) ''node_type'') = Some ''post'' \<and>
   validateWebhookSignature \<lparr>NODE_ENV = None, WEBHOOK_SECRET = None\<rparr> None
     (JSON_stringify (JObj [(''node_type'', JStr ''post''), (''action'', JStr ''UPDATE''),
        (''node_id'', JStr ''5'')])) \<and>
   status (response (handleWebhookEvent \<lparr>NODE_ENV = None, WEBHOOK_SECRET = None\<rparr>
     (HTTPServer_new [] \<lparr>publish_throws = (\<lambda>c. False)\<rparr>)
     \<lparr>signatureHeader = None,
      rawBody = JSON_stringify (JObj [(''node_type'', JStr ''post''), (''action'', JStr ''UPDATE''),
        (''node_id'', JStr ''5'')]),
      decoded = Some (JObj [(''node_type'', JStr ''post''), (''action'', JStr ''UPDATE''),
        (''node_id'', JStr ''5'')])\<rparr> 1700)) = 400 \<and>
   publishCalls (handleWebhookEvent \<lparr>NODE_ENV = None, WEBHOOK_SECRET = None\<rparr>
     (HTTPServer_new [] \<lparr>publish_throws = (\<lambda>c. False)\<rparr>)
     \<lparr>signatureHeader = None,
      rawBody = JSON_stringify (JObj [(''node_type'', JStr ''post''), (''action'', JStr ''UPDATE''),
        (''node_id'', JStr ''5'')]),
      decoded = Some (JObj [(''node_type'', JStr ''post''), (''action'', JStr ''UPDATE''),
        (''node_id'', JStr ''5'')])\<rparr> 1700) = []"
proof -
  let ?env = "\<lparr>NODE_ENV = None, WEBHOOK_SECRET = None\<rparr>"
  let ?ev = "JObj [(''node_type'', JStr ''post''), (''action'', JStr ''UPDATE''),
        (''node_id'', JStr ''5'')]"
  let ?req = "\<lparr>signatureHeader = None, rawBody = JSON_stringify ?ev, decoded = Some ?ev\<rparr>"
  let ?srv = "HTTPServer_new [] \<lparr>publish_throws = (\<lambda>c. False)\<rparr>"
  have v: "validateWebhookSignature ?env (signatureHeader ?req) (rawBody ?req)"
    by (simp add: validateWebhookSignature_def webhookSecret_def)
  have r: "redisClient ?srv = Some \<lparr>publish_throws = (\<lambda>c. False)\<rparr>"
    by (simp add: HTTPServer_new_def)
  have "status (response (handleWebhookEvent ?env ?srv ?req 1700)) = 400 \<and>
        publishCalls (handleWebhookEvent ?env ?srv ?req 1700) = []"
    by (rule missing_channels_is_rejected
          [where eventData = ?ev and a = "''UPDATE''" and typeText = "''post''",
           OF _ v _ _ _ _ _ r])
       simp_all
  with v show ?thesis
    by simp
qed

text \<open>
  Claim C8 as stated fails when \<open>action\<close> is present but not a string: \<open>action.charAt\<close>
  throws, the handler's \<open>catch\<close> answers 500. It fails in the same way when \<open>node_type\<close>
  is an object with an own \<open>toString\<close> property, which the template literal cannot
  convert.
\<close>

theorem numeric_action_without_channels_gives_500:
  "validateWebhookSignature \<lparr>NODE_ENV = None, WEBHOOK_SECRET = None\<rparr> None
     (JSON_stringify (JObj [(''node_type'', JStr ''post''), (''action'', JNum 5),
        (''node_id'', JStr ''5'')])) \<and>
   js_truthy (js_get (JObj [(''node_type'', JStr ''post''), (''action'', JNum 5),
        (''node_id'', JStr ''5'')]) ''action'') \<and>
   js_get (JObj [(''node_type'', JStr ''post''), (''action'', JNum 5),
        (''node_id'', JStr ''5'')]) ''channels'' = JNull \<and>
   status (response (handleWebhookEvent \<lparr>NODE_ENV = None, WEBHOOK_SECRET = None\<rparr>
     (HTTPServer_new [] \<lparr>publish_throws = (\<lambda>c. False)\<rparr>)
     \<lparr>signatureHeader = None,
      rawBody = JSON_stringify (JObj [(''node_type'', JStr ''post''), (''action'', JNum 5),
        (''node_id'', JStr ''5'')]),
      decoded = Some (JObj [(''node_type'', JStr ''post''), (''action'', JNum 5),
        (''node_id'', JStr ''5'')])\<rparr> 1700)) = 500 \<and>
   js_truthy (js_get (JObj [(''node_type'', JObj [(''toString'', JNum 1)]),
        (''action'', JStr ''UPDATE''), (''node_id'', JStr ''5'')]) ''node_type'') \<and>
   js_get (JObj [(''node_type'', JObj [(''toString'', JNum 1)]),
        (''action'', JStr ''UPDATE''), (''node_id'', JStr ''5'')]) ''channels'' = JNull \<and>
   status (response (handleWebhookEvent \<lparr>NODE_ENV = None, WEBHOOK_SECRET = None\<rparr>
     (HTTPServer_new [] \<lparr>publish_throws = (\<lambda>c. False)\<rparr>)
     \<lparr>signatureHeader = None,
      rawBody = JSON_stringify (JObj [(''node_type'', JObj [(''toString'', JNum 1)]),
        (''action'', JStr ''UPDATE''), (''node_id'', JStr ''5'')]),
      decoded = Some (JObj [(''node_type'', JObj [(''toString'', JNum 1)]),
        (''action'', JStr ''UPDATE''), (''node_id'', JStr ''5'')])\<rparr> 1700)) = 500"
  by (simp add: handleWebhookEvent_def validateWebhookSignature_def webhookSecret_def
      HTTPServer_new_def json_response_def internal_error_def Let_def)

section \<open>Properties of validation\<close>

subsection \<open>Operations that are not subscriptions\<close>

text \<open>
  Claim C4. When the operation that \<open>getOperationAST\<close> selects is not a subscription,
  validation fails with one error whose message names the operation's kind, and
  \<open>processSSESubscription\<close> answers 400 with a JSON body holding that error, ends the
  response, writes no event-stream headers or events, and neither calls
  \<open>createSubscription\<close> nor registers handlers.
\<close>

theorem non_subscription_operation_is_rejected:
  assumes "req_document req = Inr doc"
    and "getOperationAST doc (req_operationName req) = Some operationAST"
    and "operation operationAST \<noteq> OpSubscription"
  shows "validateSubscription req =
           \<lparr>isValid = False,
            validation_errors = Some [error_entry (''Operation must be a subscription, got '' @
              operation_text (operation operationAST))]\<rparr> \<and>
         sse_status (processSSESubscription srv req origin sid createFailure) = 400 \<and>
         map_of (sse_headers (processSSESubscription srv req origin sid createFailure))
           ''Content-Type'' = Some ''application/json'' \<and>
         written (processSSESubscription srv req origin sid createFailure) =
           [JSON_stringify (JObj [(''errors'', JArr [error_entry
              (''Operation must be a subscription, got '' @
               operation_text (operation operationAST))])])] \<and>
         ended (processSSESubscription srv req origin sid createFailure) \<and>
         createSubscriptionCalls (processSSESubscription srv req origin sid createFailure) = [] \<and>
         \<not> handlersRegistered (processSSESubscription srv req origin sid createFailure)"
proof -
  have v: "validateSubscription req =
           \<lparr>isValid = False,
            validation_errors = Some [error_entry (''Operation must be a subscription, got '' @
              operation_text (operation operationAST))]\<rparr>"
    using assms by (simp add: validateSubscription_def)
  show ?thesis
    unfolding processSSESubscription_def Let_def v by simp
qed

theorem non_subscription_operation_is_rejected_witness:
  "operation \<lparr>operation = OpQuery, operation_name = None, variableDefinitions = []\<rparr>
     \<noteq> OpSubscription \<and>
   validateSubscription
     \<lparr>req_query = ''query { posts { id } }'',
      req_document = Inr [OperationDefinition
        \<lparr>operation = OpQuery, operation_name = None, variableDefinitions = []\<rparr>],
      req_variables = None, req_operationName = None\<rparr> =
     \<lparr>isValid = False,
      validation_errors = Some [error_entry ''Operation must be a subscription, got query'']\<rparr> \<and>
   sse_status (processSSESubscription (HTTPServer_new [] \<lparr>publish_throws = (\<lambda>c. False)\<rparr>)
     \<lparr>req_query = ''query { posts { id } }'',
      req_document = Inr [OperationDefinition
        \<lparr>operation = OpQuery, operation_name = None, variableDefinitions = []\<rparr>],
      req_variables = None, req_operationName = None\<rparr> None ''sub_1'' None) = 400 \<and>
   createSubscriptionCalls (processSSESubscription
     (HTTPServer_new [] \<lparr>publish_throws = (\<lambda>c. False)\<rparr>)
     \<lparr>req_query = ''query { posts { id } }'',
      req_document = Inr [OperationDefinition
        \<lparr>operation = OpQuery, operation_name = None, variableDefinitions = []\<rparr>],
      req_variables = None, req_operationName = None\<rparr> None ''sub_1'' None) = []"
proof -
  let ?op = "\<lparr>operation = OpQuery, operation_name = None, variableDefinitions = []\<rparr>"
  let ?req = "\<lparr>req_query = ''query { posts { id } }'',
      req_document = Inr [OperationDefinition ?op],
      req_variables = None, req_operationName = None\<rparr>"
  have d: "req_document ?req = Inr [OperationDefinition ?op]"
    by simp
  have g: "getOperationAST [OperationDefinition ?op] (req_operationName ?req) = Some ?op"
    by (simp add: getOperationAST_def)
  have k: "operation ?op \<noteq> OpSubscription"
    by simp
  from non_subscription_operation_is_rejected
    [OF d g k, of "HTTPServer_new [] \<lparr>publish_throws = (\<lambda>c. False)\<rparr>" None "''sub_1''" None] k
  show ?thesis
    by simp
qed

subsection \<open>Required variables\<close>

lemma missingVariables_filter_aux:
  "foldl (\<lambda>missing varDef.
            if isRequired varDef \<and> \<not> js_in (variable_name varDef) provided
            then missing @ [variable_name varDef] else missing) acc defs
   = acc @ map variable_name
       (filter (\<lambda>varDef. isRequired varDef \<and> \<not> js_in (variable_name varDef) provided) defs)"
  by (induction defs arbitrary: acc) simp_all

lemma missingVariables_filter:
  "missingVariables defs provided =
     map variable_name
       (filter (\<lambda>varDef. isRequired varDef \<and> \<not> js_in (variable_name varDef) provided) defs)"
  by (simp add: missingVariables_def missingVariables_filter_aux)

text \<open>
  For variables whose names are not properties of \<open>Object.prototype\<close> the check is the
  one the specification describes: the names reported are those of the required
  variables without a key in the variables object, one error each, and validation of a
  subscription passes exactly when there is none.
\<close>

lemma missing_variables_outside_prototype:
  assumes "\<forall>d \<in> set defs. variable_name d \<notin> set object_prototype_keys"
  shows "missingVariables defs provided =
     map variable_name
       (filter (\<lambda>d. isRequired d \<and> variable_name d \<notin> set (map fst provided)) defs)"
proof -
  have "filter (\<lambda>d. isRequired d \<and> \<not> js_in (variable_name d) provided) defs
      = filter (\<lambda>d. isRequired d \<and> variable_name d \<notin> set (map fst provided)) defs"
    using assms by (intro filter_cong) (auto simp: js_in_def)
  then show ?thesis
    by (simp add: missingVariables_filter)
qed

text \<open>
  Claim C7 fails on the code for a required variable that is named like a property of
  \<open>Object.prototype\<close>: \<open>$constructor\<close> is declared non-nullable, the variables object is
  empty, and validation passes, because \<open>'constructor' in {}\<close> is true.
\<close>

theorem required_variable_named_constructor_is_not_reported:
  "isRequired \<lparr>variable_name = ''constructor'', variable_type = NonNullType (NamedType ''ID'')\<rparr> \<and>
   ''constructor'' \<notin> set (map fst ([] :: (string \<times> json) list)) \<and>
   validateSubscription
     \<lparr>req_query = ''subscription($constructor: ID!) { postUpdated(id: $constructor) { id } }'',
      req_document = Inr [OperationDefinition
        \<lparr>operation = OpSubscription, operation_name = None,
         variableDefinitions =
           [\<lparr>variable_name = ''constructor'', variable_type = NonNullType (NamedType ''ID'')\<rparr>]\<rparr>],
      req_variables = Some [], req_operationName = None\<rparr>
     = \<lparr>isValid = True, validation_errors = None\<rparr>"
  by (simp add: validateSubscription_def getOperationAST_def missingVariables_def isRequired_def
      js_in_def object_prototype_keys_def)

section \<open>Cache keys and user contexts\<close>

subsection \<open>String escapes can be undone\<close>

lemma unhex_hex_digit_mod: "unhex (hex_digit n) = Some (n mod 16)"
proof -
  have "hex_digit n = hex_digit (n mod 16)"
    by (simp add: hex_digit_def)
  then show ?thesis
    by (simp add: unhex_hex_digit)
qed

lemma char_of_of_char_nat: "of_char c = (k :: nat) \<Longrightarrow> c = char_of k"
  by (metis char_of_char)

lemma of_char_less_256: "(of_char c :: nat) < 256"
  by (metis of_char_of char_of_char mod_less_divisor zero_less_numeral)

lemma char_of_34: "char_of (34 :: nat) = CHR 0x22"
  by code_simp

lemma char_of_92: "char_of (92 :: nat) = CHR 0x5C"
  by code_simp

lemma unescape_escape: "unescape_head (json_escape_char c @ X) = Some (c, X)"
proof -
  define n where "n = (of_char c :: nat)"
  have c: "c = char_of n"
    by (simp add: n_def)
  have n256: "n < 256"
    unfolding n_def by (rule of_char_less_256)
  consider "n = 0x22" | "n = 0x5C" | "n = 8" | "n = 12" | "n = 10" | "n = 13" | "n = 9"
    | "n < 32" "n \<noteq> 8" "n \<noteq> 12" "n \<noteq> 10" "n \<noteq> 13" "n \<noteq> 9"
    | "32 \<le> n" "n \<noteq> 0x22" "n \<noteq> 0x5C"
    by linarith
  then show ?thesis
  proof cases
    case 8
    have low: "16 * (n div 16 mod 16) + n mod 16 = n"
      using n256 by simp
    have "json_escape_char c = backslash # CHR ''u'' # hex4 n"
      using 8 by (simp add: json_escape_char_def n_def [symmetric] Let_def)
    then show ?thesis
      by (cases X)
         (simp_all add: hex4_def unhex_hex_digit_mod low c backslash_def dquote_def)
  next
    case 9
    then have "json_escape_char c = [c]"
      by (simp add: json_escape_char_def n_def [symmetric] Let_def)
    moreover have "c \<noteq> backslash"
      using 9 by (auto simp: backslash_def n_def)
    ultimately show ?thesis
      by (cases X) simp_all
  qed (simp_all add: json_escape_char_def n_def [symmetric] Let_def c backslash_def dquote_def
      char_of_34 char_of_92)
qed


lemma escape_prefix_code:
  assumes "json_escape_char c @ X = json_escape_char d @ Y"
  shows "c = d \<and> X = Y"
proof -
  have "unescape_head (json_escape_char c @ X) = unescape_head (json_escape_char d @ Y)"
    using assms by simp
  then show ?thesis
    by (simp add: unescape_escape)
qed

lemma escape_not_quote: "json_escape_char c @ X \<noteq> dquote # Y"
proof
  assume eq: "json_escape_char c @ X = dquote # Y"
  have "unescape_head (dquote # Y) = Some (dquote, Y)"
    by (cases Y) (simp_all add: dquote_def backslash_def)
  with eq have "c = dquote"
    using unescape_escape [of c X] by simp
  then have "json_escape_char c = [backslash, dquote]"
    by (simp add: json_escape_char_def dquote_def)
  with eq show False
    by (simp add: backslash_def dquote_def)
qed

lemma escaped_body_inj:
  "concat (map json_escape_char s) @ dquote # r = concat (map json_escape_char t) @ dquote # r'
   \<Longrightarrow> s = t \<and> r = r'"
proof (induction s arbitrary: t)
  case Nil
  show ?case
  proof (cases t)
    case Nil
    with Nil.prems show ?thesis
      by simp
  next
    case (Cons d t')
    with Nil.prems
    have "json_escape_char d @ (concat (map json_escape_char t') @ dquote # r') = dquote # r"
      by simp
    then show ?thesis
      using escape_not_quote by blast
  qed
next
  case (Cons c s)
  show ?case
  proof (cases t)
    case Nil
    with Cons.prems
    have "json_escape_char c @ (concat (map json_escape_char s) @ dquote # r) = dquote # r'"
      by simp
    then show ?thesis
      using escape_not_quote by blast
  next
    case (Cons d t')
    with Cons.prems
    have "json_escape_char c @ (concat (map json_escape_char s) @ dquote # r)
        = json_escape_char d @ (concat (map json_escape_char t') @ dquote # r')"
      by simp
    then have "c = d" and "concat (map json_escape_char s) @ dquote # r
        = concat (map json_escape_char t') @ dquote # r'"
      using escape_prefix_code by blast+
    with Cons.IH Cons show ?thesis
      by simp
  qed
qed

lemma json_quote_inj: "json_quote s @ r = json_quote t @ r' \<Longrightarrow> s = t \<and> r = r'"
  using escaped_body_inj [of s r t r'] by (simp add: json_quote_def)


subsection \<open>Decimal numbers can be read back\<close>

lemma of_char_digit_char: "(of_char (digit_char n) :: nat) = 48 + n mod 10"
proof -
  have "48 + n mod 10 < 256"
    by (rule less_trans [of _ 58]) simp_all
  then show ?thesis
    by (simp add: digit_char_def of_char_of)
qed

lemma digits_value_snoc:
  "digits_value (ds @ [c]) = 10 * digits_value ds + (of_char c - 48)"
  by (simp add: digits_value_def)

lemma digits_value_digits_of: "digits_value (digits_of n) = n"
proof (induction n rule: digits_of.induct)
  case (1 n)
  show ?case
  proof (cases "n < 10")
    case True
    then show ?thesis
      by (subst digits_of.simps) (simp add: digits_value_def of_char_digit_char)
  next
    case False
    then have "digits_value (digits_of n) = 10 * (n div 10) + n mod 10"
      using 1 by (subst digits_of.simps) (simp add: digits_value_snoc of_char_digit_char)
    then show ?thesis
      by simp
  qed
qed

lemma digits_of_inj: "digits_of n = digits_of m \<Longrightarrow> n = m"
  by (metis digits_value_digits_of)

lemma is_digit_digit_char: "is_digit (digit_char n)"
proof -
  have "n mod 10 \<le> 9"
    by (simp add: Suc_leI [of "n mod 10" 9, simplified] less_Suc_eq_le [symmetric])
  then show ?thesis
    by (simp add: is_digit_def of_char_digit_char)
qed

lemma digits_of_all_digits: "\<forall>c \<in> set (digits_of n). is_digit c"
proof (induction n rule: digits_of.induct)
  case (1 n)
  show ?case
    using 1 by (subst digits_of.simps) (simp add: is_digit_digit_char)
qed

lemma digits_of_nonempty: "digits_of n \<noteq> []"
  by (subst digits_of.simps) simp


lemma show_int_head: "\<exists>h tl. show_int i = h # tl \<and> (is_digit h \<or> h = CHR ''-'')"
proof (cases "i < 0")
  case True
  then show ?thesis
    by (simp add: show_int_def)
next
  case False
  obtain h tl where ht: "digits_of (nat i) = h # tl"
    using digits_of_nonempty by (cases "digits_of (nat i)") auto
  then have "is_digit h"
    using digits_of_all_digits [of "nat i"] by simp
  with False ht show ?thesis
    by (simp add: show_int_def)
qed

lemma show_int_chars: "\<forall>c \<in> set (show_int i). is_digit c \<or> c = CHR ''-''"
  using digits_of_all_digits by (auto simp: show_int_def)

lemma minus_not_digit: "\<not> is_digit CHR ''-''"
  by (simp add: is_digit_def)

lemma show_int_inj: "show_int i = show_int j \<Longrightarrow> i = j"
proof -
  assume eq: "show_int i = show_int j"
  have pos: "digits_of n \<noteq> CHR ''-'' # ds" for n ds
  proof
    assume "digits_of n = CHR ''-'' # ds"
    then have "is_digit CHR ''-''"
      using digits_of_all_digits [of n] by simp
    then show False
      by (simp add: minus_not_digit)
  qed
  show ?thesis
  proof (cases "i < 0"; cases "j < 0")
    assume "i < 0" "j < 0"
    with eq have "nat (- i) = nat (- j)"
      by (simp add: show_int_def digits_of_inj)
    with \<open>i < 0\<close> \<open>j < 0\<close> show ?thesis
      by simp
  next
    assume "i < 0" "\<not> j < 0"
    with eq pos [of "nat j"] show ?thesis
      by (simp add: show_int_def) metis
  next
    assume "\<not> i < 0" "j < 0"
    with eq pos [of "nat i"] show ?thesis
      by (simp add: show_int_def)
  next
    assume "\<not> i < 0" "\<not> j < 0"
    with eq have "nat i = nat j"
      by (simp add: show_int_def digits_of_inj)
    with \<open>\<not> i < 0\<close> \<open>\<not> j < 0\<close> show ?thesis
      by simp
  qed
qed

lemma no_sep_split:
  assumes "sep \<notin> set x" and "sep \<notin> set y" and "x @ sep # r = y @ sep # r'"
  shows "x = y \<and> r = r'"
  using assms
proof (induction x arbitrary: y)
  case Nil
  then show ?case
    by (cases y) auto
next
  case (Cons a x)
  then show ?case
    by (cases y) auto
qed

lemma show_int_comma:
  assumes "show_int i @ CHR '','' # r = show_int j @ CHR '','' # r'"
  shows "i = j \<and> r = r'"
proof -
  have nc: "CHR '','' \<notin> set (show_int k)" for k
    using show_int_chars [of k] by (auto simp: is_digit_def)
  from no_sep_split [OF nc nc assms] have "show_int i = show_int j" and "r = r'"
    by simp_all
  then show ?thesis
    by (simp add: show_int_inj)
qed


subsection \<open>The serialised user context determines its fields\<close>

lemma json_quote_head: "json_quote s = dquote # concat (map json_escape_char s) @ [dquote]"
  by (simp add: json_quote_def)

lemma userId_or_null_shapes:
  "userId_or_null u = JNull \<or> (\<exists>n. userId_or_null u = JNum n) \<or> (\<exists>s. userId_or_null u = JStr s)"
proof (cases u)
  case None
  then show ?thesis
    by (simp add: userId_or_null_def)
next
  case (Some i)
  then show ?thesis
    by (cases i) (simp_all add: userId_or_null_def)
qed

lemma userId_or_null_kinds:
  obtains "userId_or_null u = JNull"
  | n where "userId_or_null u = JNum n"
  | s where "userId_or_null u = JStr s"
  using userId_or_null_shapes [of u] by blast

lemma userId_encoding_inj:
  assumes "JSON_stringify (userId_or_null a) @ CHR '','' # r
         = JSON_stringify (userId_or_null b) @ CHR '','' # r'"
  shows "userId_or_null a = userId_or_null b \<and> r = r'"
proof -
  have num_null: False if "show_int n @ X = ''null'' @ Y" for n X Y
  proof -
    obtain h tl where "show_int n = h # tl" and "is_digit h \<or> h = CHR ''-''"
      using show_int_head by blast
    with that show False
      by (auto simp: is_digit_def)
  qed
  have num_str: False if "show_int n @ X = json_quote s @ Y" for n X s Y
  proof -
    obtain h tl where "show_int n = h # tl" and "is_digit h \<or> h = CHR ''-''"
      using show_int_head by blast
    with that show False
      by (auto simp: is_digit_def json_quote_head dquote_def)
  qed
  have str_null: False if "json_quote s @ X = ''null'' @ Y" for s X Y
    using that by (simp add: json_quote_head dquote_def)
  show ?thesis
  proof (cases rule: userId_or_null_kinds [of a])
    case 1
    show ?thesis
    proof (cases rule: userId_or_null_kinds [of b])
      case 1
      with \<open>userId_or_null a = JNull\<close> assms show ?thesis
        by simp
    next
      case (2 m)
      with \<open>userId_or_null a = JNull\<close> assms num_null [of m "CHR '','' # r'" "CHR '','' # r"]
      show ?thesis
        by simp
    next
      case (3 s)
      with \<open>userId_or_null a = JNull\<close> assms str_null [of s "CHR '','' # r'" "CHR '','' # r"]
      show ?thesis
        by simp
    qed
  next
    case (2 n)
    note a = this
    show ?thesis
    proof (cases rule: userId_or_null_kinds [of b])
      case 1
      with a assms num_null [of n "CHR '','' # r" "CHR '','' # r'"] show ?thesis
        by simp
    next
      case (2 m)
      with a assms show ?thesis
        using show_int_comma [of n r m r'] by simp
    next
      case (3 s)
      with a assms num_str [of n "CHR '','' # r" s "CHR '','' # r'"] show ?thesis
        by simp
    qed
  next
    case (3 s)
    note a = this
    show ?thesis
    proof (cases rule: userId_or_null_kinds [of b])
      case 1
      with a assms str_null [of s "CHR '','' # r" "CHR '','' # r'"] show ?thesis
        by simp
    next
      case (2 m)
      with a assms num_str [of m "CHR '','' # r'" s "CHR '','' # r"] show ?thesis
        by simp
    next
      case (3 s')
      with a assms show ?thesis
        using json_quote_inj [of s "CHR '','' # r" s' "CHR '','' # r'"] by simp
    qed
  qed
qed

lemma stringify_strs_cons:
  "stringify_elems (map JStr (x # xs)) @ Z =
     json_quote x @ (if xs = [] then Z else CHR '','' # stringify_elems (map JStr xs) @ Z)"
  by (cases xs) simp_all

lemma string_array_inj:
  "stringify_elems (map JStr R) @ CHR '']'' # r = stringify_elems (map JStr R') @ CHR '']'' # r'
   \<Longrightarrow> R = R' \<and> r = r'"
proof (induction R arbitrary: R')
  case Nil
  show ?case
  proof (cases R')
    case Nil
    with Nil.prems show ?thesis
      by simp
  next
    case (Cons y ys)
    with Nil.prems show ?thesis
      by (simp only: stringify_strs_cons json_quote_head)
         (simp add: dquote_def)
  qed
next
  case (Cons x xs)
  show ?case
  proof (cases R')
    case Nil
    with Cons.prems show ?thesis
      by (simp only: stringify_strs_cons json_quote_head)
         (simp add: dquote_def)
  next
    case (Cons y ys)
    with Cons.prems
    have "json_quote x @ (if xs = [] then CHR '']'' # r
            else CHR '','' # stringify_elems (map JStr xs) @ CHR '']'' # r)
        = json_quote y @ (if ys = [] then CHR '']'' # r'
            else CHR '','' # stringify_elems (map JStr ys) @ CHR '']'' # r')"
      by (simp only: stringify_strs_cons)
    then have xy: "x = y"
      and rest: "(if xs = [] then CHR '']'' # r
            else CHR '','' # stringify_elems (map JStr xs) @ CHR '']'' # r)
        = (if ys = [] then CHR '']'' # r'
            else CHR '','' # stringify_elems (map JStr ys) @ CHR '']'' # r')"
      using json_quote_inj by blast+
    have "xs = ys \<and> r = r'"
    proof (cases "xs = []"; cases "ys = []")
      assume "xs \<noteq> []" "ys \<noteq> []"
      with rest have "stringify_elems (map JStr xs) @ CHR '']'' # r
          = stringify_elems (map JStr ys) @ CHR '']'' # r'"
        by simp
      then show ?thesis
        by (rule Cons.IH)
    qed (use rest in simp_all)
    with xy Cons show ?thesis
      by simp
  qed
qed


lemma sorted_or_empty_normal: "sorted_or_empty xs = JArr (map JStr (normal_list xs))"
  by (cases xs) (simp_all add: sorted_or_empty_def normal_list_def)

lemma bool_encoding_inj:
  "(if b then ''true'' else ''false'') @ X = (if b' then ''true'' else ''false'') @ Y \<Longrightarrow> b = b'"
  by (cases b; cases b') simp_all

lemma context_encoding_inj:
  assumes "JSON_stringify (normalizeUserContext (Some c1)) @ Z
         = JSON_stringify (normalizeUserContext (Some c2)) @ Z'"
  shows "userId_or_null (userId c1) = userId_or_null (userId c2) \<and>
         normal_list (userRoles c1) = normal_list (userRoles c2) \<and>
         normal_list (capabilities c1) = normal_list (capabilities c2) \<and>
         isAuthenticated c1 = isAuthenticated c2"
proof -
  let ?B1 = "(if isAuthenticated c1 then ''true'' else ''false'') @ CHR ''}'' # Z"
  let ?B2 = "(if isAuthenticated c2 then ''true'' else ''false'') @ CHR ''}'' # Z'"
  let ?C1 = "stringify_elems (map JStr (normal_list (capabilities c1))) @ CHR '']'' #
      (CHR '','' # json_quote ''isAuthenticated'' @ CHR '':'' # ?B1)"
  let ?C2 = "stringify_elems (map JStr (normal_list (capabilities c2))) @ CHR '']'' #
      (CHR '','' # json_quote ''isAuthenticated'' @ CHR '':'' # ?B2)"
  let ?R1 = "stringify_elems (map JStr (normal_list (userRoles c1))) @ CHR '']'' #
      (CHR '','' # json_quote ''capabilities'' @ CHR '':'' # CHR ''['' # ?C1)"
  let ?R2 = "stringify_elems (map JStr (normal_list (userRoles c2))) @ CHR '']'' #
      (CHR '','' # json_quote ''capabilities'' @ CHR '':'' # CHR ''['' # ?C2)"
  have "JSON_stringify (userId_or_null (userId c1)) @ CHR '','' #
          (json_quote ''userRoles'' @ CHR '':'' # CHR ''['' # ?R1)
      = JSON_stringify (userId_or_null (userId c2)) @ CHR '','' #
          (json_quote ''userRoles'' @ CHR '':'' # CHR ''['' # ?R2)"
    using assms by (simp add: normalizeUserContext_def sorted_or_empty_normal)
  then have u: "userId_or_null (userId c1) = userId_or_null (userId c2)"
    and "json_quote ''userRoles'' @ CHR '':'' # CHR ''['' # ?R1
       = json_quote ''userRoles'' @ CHR '':'' # CHR ''['' # ?R2"
    using userId_encoding_inj by blast+
  then have "?R1 = ?R2"
    by simp
  then have r: "normal_list (userRoles c1) = normal_list (userRoles c2)"
    and "CHR '','' # json_quote ''capabilities'' @ CHR '':'' # CHR ''['' # ?C1
       = CHR '','' # json_quote ''capabilities'' @ CHR '':'' # CHR ''['' # ?C2"
    using string_array_inj by blast+
  then have "?C1 = ?C2"
    by simp
  then have c: "normal_list (capabilities c1) = normal_list (capabilities c2)"
    and "CHR '','' # json_quote ''isAuthenticated'' @ CHR '':'' # ?B1
       = CHR '','' # json_quote ''isAuthenticated'' @ CHR '':'' # ?B2"
    using string_array_inj by blast+
  then have "?B1 = ?B2"
    by simp
  then have "isAuthenticated c1 = isAuthenticated c2"
    by (rule bool_encoding_inj)
  with u r c show ?thesis
    by simp
qed

subsection \<open>The shape of a cache key\<close>

lemma length_hex_byte: "length (hex_byte b) = 2"
  by (simp add: hex_byte_def)

lemma length_to_hex: "length (to_hex bs) = 2 * length bs"
  by (induction bs) (simp_all add: to_hex_def length_hex_byte)

lemma length_sha256: "length (sha256 bs) = 32"
  by (simp add: sha256_def state_words_def be_bytes32_def split: prod.splits)

lemma length_sha256_hex: "length (sha256_hex s) = 64"
  by (simp add: sha256_hex_def length_to_hex length_sha256)

lemma cache_key_eq_iff:
  "generateCacheKey s1 = generateCacheKey s2 \<longleftrightarrow>
     take 16 (sha256_hex (JSON_stringify (cache_payload s1)))
       = take 16 (sha256_hex (JSON_stringify (cache_payload s2))) \<and>
     userIndicator (userContext s1) = userIndicator (userContext s2)"
proof -
  let ?a = "take 16 (sha256_hex (JSON_stringify (cache_payload s1)))"
  let ?b = "take 16 (sha256_hex (JSON_stringify (cache_payload s2)))"
  have "(?a @ ''_'' @ userIndicator (userContext s1) = ?b @ ''_'' @ userIndicator (userContext s2))
      = (?a = ?b \<and> ''_'' @ userIndicator (userContext s1) = ''_'' @ userIndicator (userContext s2))"
    by (rule append_eq_append_conv) (simp add: length_sha256_hex)
  then show ?thesis
    by (simp add: generateCacheKey_def Let_def)
qed

lemma userIndicator_authenticated:
  "isAuthenticated u1 \<noteq> isAuthenticated u2 \<Longrightarrow>
   userIndicator (Some u1) \<noteq> userIndicator (Some u2)"
  by (auto simp: userIndicator_def)

lemma normal_list_eq_iff:
  "normal_list (Some xs) = normal_list (Some ys) \<longleftrightarrow> mset xs = mset ys"
proof
  assume "normal_list (Some xs) = normal_list (Some ys)"
  then have "mset (sort xs) = mset (sort ys)"
    by (simp add: normal_list_def js_sort_def)
  then show "mset xs = mset ys"
    by simp
next
  assume "mset xs = mset ys"
  then have "js_sort xs = js_sort ys"
    by (rule js_sort_mset)
  then show "normal_list (Some xs) = normal_list (Some ys)"
    by (simp add: normal_list_def)
qed

lemma payload_encoding_eq_iff:
  assumes "query s1 = query s2"
    and "variables s1 = variables s2"
    and "operationName s1 = operationName s2"
    and "userContext s1 = Some u1"
    and "userContext s2 = Some u2"
  shows "JSON_stringify (cache_payload s1) = JSON_stringify (cache_payload s2) \<longleftrightarrow>
         userId_or_null (userId u1) = userId_or_null (userId u2) \<and>
         normal_list (userRoles u1) = normal_list (userRoles u2) \<and>
         normal_list (capabilities u1) = normal_list (capabilities u2) \<and>
         isAuthenticated u1 = isAuthenticated u2"
proof
  assume "JSON_stringify (cache_payload s1) = JSON_stringify (cache_payload s2)"
  then have "JSON_stringify (normalizeUserContext (Some u1)) @ ''}''
           = JSON_stringify (normalizeUserContext (Some u2)) @ ''}''"
    using assms by (simp add: cache_payload_def)
  then show "userId_or_null (userId u1) = userId_or_null (userId u2) \<and>
         normal_list (userRoles u1) = normal_list (userRoles u2) \<and>
         normal_list (capabilities u1) = normal_list (capabilities u2) \<and>
         isAuthenticated u1 = isAuthenticated u2"
    by (rule context_encoding_inj)
next
  assume "userId_or_null (userId u1) = userId_or_null (userId u2) \<and>
         normal_list (userRoles u1) = normal_list (userRoles u2) \<and>
         normal_list (capabilities u1) = normal_list (capabilities u2) \<and>
         isAuthenticated u1 = isAuthenticated u2"
  then have "normalizeUserContext (Some u1) = normalizeUserContext (Some u2)"
    by (simp add: normalizeUserContext_def sorted_or_empty_normal)
  then show "JSON_stringify (cache_payload s1) = JSON_stringify (cache_payload s2)"
    using assms by (simp add: cache_payload_def)
qed

lemma userIndicator_user_ids:
  assumes "isAuthenticated u1" and "isAuthenticated u2"
    and "userId u1 = Some i1" and "userId u2 = Some i2"
    and "user_id_truthy i1" and "user_id_truthy i2"
    and "user_id_text i1 \<noteq> user_id_text i2"
  shows "userIndicator (Some u1) \<noteq> userIndicator (Some u2)"
  using assms by (simp add: userIndicator_def)

lemma user_id_json_not_null: "user_id_json i \<noteq> JNull"
  by (cases i) simp_all

lemma user_id_json_text: "user_id_json i = user_id_json j \<Longrightarrow> user_id_text i = user_id_text j"
  by (cases i; cases j) simp_all

lemma userIndicator_normalised:
  assumes ids: "userId_or_null (userId u1) = userId_or_null (userId u2)"
    and auth: "isAuthenticated u1 = isAuthenticated u2"
  shows "userIndicator (Some u1) = userIndicator (Some u2)"
proof -
  define shown where "shown u = (case u of None \<Rightarrow> ''auth''
      | Some i \<Rightarrow> if user_id_truthy i then user_id_text i else ''auth'')" for u
  have null: "shown u = ''auth''" if "userId_or_null u = JNull" for u
    using that user_id_json_not_null
    by (cases u) (auto simp: shown_def userId_or_null_def split: if_splits)
  have "shown (userId u1) = shown (userId u2)"
  proof (cases "userId_or_null (userId u1) = JNull")
    case True
    with ids null [of "userId u1"] null [of "userId u2"] show ?thesis
      by simp
  next
    case False
    then obtain i where i: "userId u1 = Some i" "user_id_truthy i"
      by (cases "userId u1") (auto simp: userId_or_null_def split: if_splits)
    from False ids have "userId_or_null (userId u2) \<noteq> JNull"
      by simp
    then obtain j where j: "userId u2 = Some j" "user_id_truthy j"
      by (cases "userId u2") (auto simp: userId_or_null_def split: if_splits)
    from ids i j have "user_id_json i = user_id_json j"
      by (simp add: userId_or_null_def)
    then have "user_id_text i = user_id_text j"
      by (rule user_id_json_text)
    with i j show ?thesis
      by (simp add: shown_def)
  qed
  with auth show ?thesis
    by (simp add: userIndicator_def shown_def)
qed

subsection \<open>Only finitely many keys for one user\<close>

lemma finite_strings_of_length: "finite {k :: string. length k = n}"
proof -
  have "finite {k :: string. set k \<subseteq> UNIV \<and> length k = n}"
    by (rule finite_lists_length_eq) (rule finite)
  then show ?thesis
    by simp
qed

lemma length_generateCacheKey:
  "length (generateCacheKey s) = 17 + length (userIndicator (userContext s))"
  by (simp add: generateCacheKey_def length_sha256_hex)

text \<open>
  A key is 16 hexadecimal digits, an underscore and the user indicator. Among infinitely
  many subscriptions with one indicator, two have the same key.
\<close>

lemma cache_keys_collide:
  fixes F :: "nat \<Rightarrow> cacheable_subscription"
  assumes "\<And>n. userIndicator (userContext (F n)) = ind"
  shows "\<exists>n m. n \<noteq> m \<and> generateCacheKey (F n) = generateCacheKey (F m)"
proof (rule ccontr)
  assume none: "\<not> ?thesis"
  have "inj (\<lambda>n. generateCacheKey (F n))"
  proof (rule injI)
    fix n m
    assume "generateCacheKey (F n) = generateCacheKey (F m)"
    with none show "n = m"
      by blast
  qed
  moreover have "range (\<lambda>n. generateCacheKey (F n)) \<subseteq> {k. length k = 17 + length ind}"
    using assms by (auto simp: length_generateCacheKey)
  then have "finite (range (\<lambda>n. generateCacheKey (F n)))"
    using finite_strings_of_length by (rule finite_subset)
  ultimately have "finite (UNIV :: nat set)"
    by (rule finite_imageD [rotated])
  then show False
    by simp
qed

subsection \<open>Two digests, computed\<close>

text \<open>
  The first 16 hexadecimal digits of the SHA-256 digests of the texts hashed for user 7
  as administrator and as subscriber.
\<close>

lemma administrator_digest:
  "take 16 (sha256_hex (JSON_stringify (cache_payload
     \<lparr>query = ''subscription { postUpdated { id } }'', variables = JObj [],
      operationName = None,
      userContext = Some \<lparr>userId = Some (UserIdNum 7), userRoles = Some [''administrator''],
        capabilities = Some [], isAuthenticated = True\<rparr>\<rparr>)))
   = ''52ee9d51e5420b24''"
  by code_simp

lemma subscriber_digest:
  "take 16 (sha256_hex (JSON_stringify (cache_payload
     \<lparr>query = ''subscription { postUpdated { id } }'', variables = JObj [],
      operationName = None,
      userContext = Some \<lparr>userId = Some (UserIdNum 7), userRoles = Some [''subscriber''],
        capabilities = Some [], isAuthenticated = True\<rparr>\<rparr>)))
   = ''d0e240b85015a459''"
  by code_simp

subsection \<open>Which user contexts get different keys\<close>

text \<open>
  Claim C1, as amended. Take two subscriptions with the same query, variables and
  operation name and with user contexts \<open>u1\<close> and \<open>u2\<close>, all numbers in them being safe
  integers. Call the contexts alike when they agree on \<open>isAuthenticated\<close>, on the user id
  with every falsy id (absent, \<open>0\<close>, the empty string) read as \<open>null\<close>, and on the sorted
  lists of roles and of capabilities (an absent list read as empty).
  \<^item> If the contexts differ in \<open>isAuthenticated\<close>, the cache keys differ.
  \<^item> If both are authenticated and carry truthy user ids with different texts, the cache
    keys differ.
  \<^item> The JSON text that is hashed is the same for both exactly when the contexts are
    alike.
  \<^item> The cache keys are equal exactly when the user indicators are equal and the first 16
    hexadecimal digits of the SHA-256 digests of the two JSON texts are equal.
  \<^item> Contexts that are alike share one cache key.
  \<^item> Contexts that are not alike share a cache key only through a collision: two
    different JSON texts whose SHA-256 digests agree on the first 16 hexadecimal digits.
\<close>

theorem cache_key_separates_user_contexts:
  assumes "query s1 = query s2"
    and "variables s1 = variables s2"
    and "operationName s1 = operationName s2"
    and "userContext s1 = Some u1"
    and "userContext s2 = Some u2"
    and "safe_json (variables s1)"
    and "safe_user_id (userId u1)"
    and "safe_user_id (userId u2)"
  shows "(isAuthenticated u1 \<noteq> isAuthenticated u2 \<longrightarrow>
            generateCacheKey s1 \<noteq> generateCacheKey s2) \<and>
         (\<forall>i1 i2. isAuthenticated u1 \<and> isAuthenticated u2 \<and>
            userId u1 = Some i1 \<and> userId u2 = Some i2 \<and>
            user_id_truthy i1 \<and> user_id_truthy i2 \<and> user_id_text i1 \<noteq> user_id_text i2 \<longrightarrow>
            generateCacheKey s1 \<noteq> generateCacheKey s2) \<and>
         (JSON_stringify (cache_payload s1) = JSON_stringify (cache_payload s2) \<longleftrightarrow>
            userId_or_null (userId u1) = userId_or_null (userId u2) \<and>
            normal_list (userRoles u1) = normal_list (userRoles u2) \<and>
            normal_list (capabilities u1) = normal_list (capabilities u2) \<and>
            isAuthenticated u1 = isAuthenticated u2) \<and>
         (generateCacheKey s1 = generateCacheKey s2 \<longleftrightarrow>
            take 16 (sha256_hex (JSON_stringify (cache_payload s1)))
              = take 16 (sha256_hex (JSON_stringify (cache_payload s2))) \<and>
            userIndicator (Some u1) = userIndicator (Some u2)) \<and>
         (userId_or_null (userId u1) = userId_or_null (userId u2) \<and>
            normal_list (userRoles u1) = normal_list (userRoles u2) \<and>
            normal_list (capabilities u1) = normal_list (capabilities u2) \<and>
            isAuthenticated u1 = isAuthenticated u2 \<longrightarrow>
            generateCacheKey s1 = generateCacheKey s2) \<and>
         (generateCacheKey s1 = generateCacheKey s2 \<and>
            \<not> (userId_or_null (userId u1) = userId_or_null (userId u2) \<and>
               normal_list (userRoles u1) = normal_list (userRoles u2) \<and>
               normal_list (capabilities u1) = normal_list (capabilities u2) \<and>
               isAuthenticated u1 = isAuthenticated u2) \<longrightarrow>
            JSON_stringify (cache_payload s1) \<noteq> JSON_stringify (cache_payload s2) \<and>
            take 16 (sha256_hex (JSON_stringify (cache_payload s1)))
              = take 16 (sha256_hex (JSON_stringify (cache_payload s2))))"
proof -
  let ?alike = "userId_or_null (userId u1) = userId_or_null (userId u2) \<and>
            normal_list (userRoles u1) = normal_list (userRoles u2) \<and>
            normal_list (capabilities u1) = normal_list (capabilities u2) \<and>
            isAuthenticated u1 = isAuthenticated u2"
  have key: "generateCacheKey s1 = generateCacheKey s2 \<longleftrightarrow>
            take 16 (sha256_hex (JSON_stringify (cache_payload s1)))
              = take 16 (sha256_hex (JSON_stringify (cache_payload s2))) \<and>
            userIndicator (Some u1) = userIndicator (Some u2)"
    using cache_key_eq_iff [of s1 s2] assms(4,5) by simp
  have auth: "generateCacheKey s1 \<noteq> generateCacheKey s2"
    if "isAuthenticated u1 \<noteq> isAuthenticated u2"
    using that key userIndicator_authenticated by blast
  have ids: "generateCacheKey s1 \<noteq> generateCacheKey s2"
    if "isAuthenticated u1 \<and> isAuthenticated u2 \<and>
        userId u1 = Some i1 \<and> userId u2 = Some i2 \<and>
        user_id_truthy i1 \<and> user_id_truthy i2 \<and> user_id_text i1 \<noteq> user_id_text i2"
    for i1 i2
    using that key userIndicator_user_ids [of u1 u2 i1 i2] by blast
  have texts: "JSON_stringify (cache_payload s1) = JSON_stringify (cache_payload s2) \<longleftrightarrow> ?alike"
    using assms(1-5) by (rule payload_encoding_eq_iff)
  have shared: "generateCacheKey s1 = generateCacheKey s2" if alike: "?alike"
  proof -
    from alike have "userIndicator (Some u1) = userIndicator (Some u2)"
      by (intro userIndicator_normalised) simp_all
    moreover from alike texts
    have "JSON_stringify (cache_payload s1) = JSON_stringify (cache_payload s2)"
      by simp
    ultimately show ?thesis
      using key by simp
  qed
  have collision: "JSON_stringify (cache_payload s1) \<noteq> JSON_stringify (cache_payload s2) \<and>
      take 16 (sha256_hex (JSON_stringify (cache_payload s1)))
        = take 16 (sha256_hex (JSON_stringify (cache_payload s2)))"
    if "generateCacheKey s1 = generateCacheKey s2 \<and> \<not> ?alike"
    using that key texts by blast
  show ?thesis
    using auth ids texts key shared collision by blast
qed

text \<open>
  An instance: user 7 as administrator and user 7 as subscriber. The texts differ, the
  digests differ in their first 16 digits, and so do the keys.
\<close>

theorem cache_key_separates_user_contexts_witness:
  "safe_json (variables
     \<lparr>query = ''subscription { postUpdated { id } }'', variables = JObj [],
      operationName = None,
      userContext = Some \<lparr>userId = Some (UserIdNum 7), userRoles = Some [''administrator''],
        capabilities = Some [], isAuthenticated = True\<rparr>\<rparr>) \<and>
   safe_user_id (userId \<lparr>userId = Some (UserIdNum 7), userRoles = Some [''administrator''],
        capabilities = Some [], isAuthenticated = True\<rparr>) \<and>
   safe_user_id (userId \<lparr>userId = Some (UserIdNum 7), userRoles = Some [''subscriber''],
        capabilities = Some [], isAuthenticated = True\<rparr>) \<and>
   normal_list (userRoles \<lparr>userId = Some (UserIdNum 7), userRoles = Some [''administrator''],
        capabilities = Some [], isAuthenticated = True\<rparr>)
     \<noteq> normal_list (userRoles \<lparr>userId = Some (UserIdNum 7), userRoles = Some [''subscriber''],
        capabilities = Some [], isAuthenticated = True\<rparr>) \<and>
   JSON_stringify (cache_payload
     \<lparr>query = ''subscription { postUpdated { id } }'', variables = JObj [],
      operationName = None,
      userContext = Some \<lparr>userId = Some (UserIdNum 7), userRoles = Some [''administrator''],
        capabilities = Some [], isAuthenticated = True\<rparr>\<rparr>)
   \<noteq> JSON_stringify (cache_payload
     \<lparr>query = ''subscription { postUpdated { id } }'', variables = JObj [],
      operationName = None,
      userContext = Some \<lparr>userId = Some (UserIdNum 7), userRoles = Some [''subscriber''],
        capabilities = Some [], isAuthenticated = True\<rparr>\<rparr>) \<and>
   generateCacheKey
     \<lparr>query = ''subscription { postUpdated { id } }'', variables = JObj [],
      operationName = None,
      userContext = Some \<lparr>userId = Some (UserIdNum 7), userRoles = Some [''administrator''],
        capabilities = Some [], isAuthenticated = True\<rparr>\<rparr>
   = ''52ee9d51e5420b24_u7'' \<and>
   generateCacheKey
     \<lparr>query = ''subscription { postUpdated { id } }'', variables = JObj [],
      operationName = None,
      userContext = Some \<lparr>userId = Some (UserIdNum 7), userRoles = Some [''subscriber''],
        capabilities = Some [], isAuthenticated = True\<rparr>\<rparr>
   = ''d0e240b85015a459_u7'' \<and>
   generateCacheKey
     \<lparr>query = ''subscription { postUpdated { id } }'', variables = JObj [],
      operationName = None,
      userContext = Some \<lparr>userId = Some (UserIdNum 7), userRoles = Some [''administrator''],
        capabilities = Some [], isAuthenticated = True\<rparr>\<rparr>
   \<noteq> generateCacheKey
     \<lparr>query = ''subscription { postUpdated { id } }'', variables = JObj [],
      operationName = None,
      userContext = Some \<lparr>userId = Some (UserIdNum 7), userRoles = Some [''subscriber''],
        capabilities = Some [], isAuthenticated = True\<rparr>\<rparr>"
proof -
  let ?u1 = "\<lparr>userId = Some (UserIdNum 7), userRoles = Some [''administrator''],
        capabilities = Some [], isAuthenticated = True\<rparr>"
  let ?u2 = "\<lparr>userId = Some (UserIdNum 7), userRoles = Some [''subscriber''],
        capabilities = Some [], isAuthenticated = True\<rparr>"
  let ?s1 = "\<lparr>query = ''subscription { postUpdated { id } }'', variables = JObj [],
      operationName = None, userContext = Some ?u1\<rparr>"
  let ?s2 = "\<lparr>query = ''subscription { postUpdated { id } }'', variables = JObj [],
      operationName = None, userContext = Some ?u2\<rparr>"
  have safe: "safe_json (variables ?s1)" "safe_user_id (userId ?u1)" "safe_user_id (userId ?u2)"
    by (simp_all add: safe_integer_def)
  have roles: "normal_list (userRoles ?u1) \<noteq> normal_list (userRoles ?u2)"
    by (simp add: normal_list_def js_sort_def)
  have same: "query ?s1 = query ?s2" "variables ?s1 = variables ?s2"
    "operationName ?s1 = operationName ?s2" "userContext ?s1 = Some ?u1"
    "userContext ?s2 = Some ?u2"
    by simp_all
  note separated = cache_key_separates_user_contexts [OF same safe]
  from separated [THEN conjunct2, THEN conjunct2, THEN conjunct1] roles
  have texts: "JSON_stringify (cache_payload ?s1) \<noteq> JSON_stringify (cache_payload ?s2)"
    by blast
  have digests: "take 16 (sha256_hex (JSON_stringify (cache_payload ?s1)))
      \<noteq> take 16 (sha256_hex (JSON_stringify (cache_payload ?s2)))"
    unfolding administrator_digest subscriber_digest by simp
  with separated [THEN conjunct2, THEN conjunct2, THEN conjunct2, THEN conjunct1]
  have keys: "generateCacheKey ?s1 \<noteq> generateCacheKey ?s2"
    by blast
  have shown: "show_int 7 = ''7''"
    by code_simp
  have key1: "generateCacheKey ?s1 = ''52ee9d51e5420b24_u7''"
    unfolding generateCacheKey_def Let_def administrator_digest
    by (simp add: userIndicator_def shown)
  have key2: "generateCacheKey ?s2 = ''d0e240b85015a459_u7''"
    unfolding generateCacheKey_def Let_def subscriber_digest
    by (simp add: userIndicator_def shown)
  from safe roles texts key1 key2 keys show ?thesis
    by blast
qed

text \<open>
  Claim C1 as stated fails in two ways. Between falsy user ids: an authenticated context
  with user id \<open>0\<close> and one without a user id are both normalised to \<open>userId: null\<close> and
  both get the indicator \<open>uauth\<close>, so the two subscriptions share one cache key. And
  between sets of roles, and likewise of capabilities: the indicator names the user id
  only, so one user has finitely many keys for a query, and among the infinitely many
  sets of roles two different ones share a key.
\<close>

theorem user_contexts_share_cache_key:
  "userId \<lparr>userId = Some (UserIdNum 0), userRoles = Some [''subscriber''],
       capabilities = Some [''read''], isAuthenticated = True\<rparr>
     \<noteq> userId \<lparr>userId = None, userRoles = Some [''subscriber''],
       capabilities = Some [''read''], isAuthenticated = True\<rparr> \<and>
   generateCacheKey
     \<lparr>query = ''subscription { postUpdated { id } }'', variables = JObj [],
      operationName = None,
      userContext = Some \<lparr>userId = Some (UserIdNum 0), userRoles = Some [''subscriber''],
        capabilities = Some [''read''], isAuthenticated = True\<rparr>\<rparr>
   = generateCacheKey
     \<lparr>query = ''subscription { postUpdated { id } }'', variables = JObj [],
      operationName = None,
      userContext = Some \<lparr>userId = None, userRoles = Some [''subscriber''],
        capabilities = Some [''read''], isAuthenticated = True\<rparr>\<rparr> \<and>
   (\<exists>roles1 roles2. set roles1 \<noteq> set roles2 \<and>
      generateCacheKey
        \<lparr>query = ''subscription { postUpdated { id } }'', variables = JObj [],
         operationName = None,
         userContext = Some \<lparr>userId = Some (UserIdNum 7), userRoles = Some roles1,
           capabilities = Some [''read''], isAuthenticated = True\<rparr>\<rparr>
      = generateCacheKey
        \<lparr>query = ''subscription { postUpdated { id } }'', variables = JObj [],
         operationName = None,
         userContext = Some \<lparr>userId = Some (UserIdNum 7), userRoles = Some roles2,
           capabilities = Some [''read''], isAuthenticated = True\<rparr>\<rparr>) \<and>
   (\<exists>caps1 caps2. set caps1 \<noteq> set caps2 \<and>
      generateCacheKey
        \<lparr>query = ''subscription { postUpdated { id } }'', variables = JObj [],
         operationName = None,
         userContext = Some \<lparr>userId = Some (UserIdNum 7), userRoles = Some [''subscriber''],
           capabilities = Some caps1, isAuthenticated = True\<rparr>\<rparr>
      = generateCacheKey
        \<lparr>query = ''subscription { postUpdated { id } }'', variables = JObj [],
         operationName = None,
         userContext = Some \<lparr>userId = Some (UserIdNum 7), userRoles = Some [''subscriber''],
           capabilities = Some caps2, isAuthenticated = True\<rparr>\<rparr>)"
proof -
  let ?u1 = "\<lparr>userId = Some (UserIdNum 0), userRoles = Some [''subscriber''],
        capabilities = Some [''read''], isAuthenticated = True\<rparr>"
  let ?u2 = "\<lparr>userId = None, userRoles = Some [''subscriber''],
        capabilities = Some [''read''], isAuthenticated = True\<rparr>"
  let ?s1 = "\<lparr>query = ''subscription { postUpdated { id } }'', variables = JObj [],
      operationName = None, userContext = Some ?u1\<rparr>"
  let ?s2 = "\<lparr>query = ''subscription { postUpdated { id } }'', variables = JObj [],
      operationName = None, userContext = Some ?u2\<rparr>"
  let ?with_roles = "\<lambda>roles.
      \<lparr>query = ''subscription { postUpdated { id } }'', variables = JObj [],
       operationName = None,
       userContext = Some \<lparr>userId = Some (UserIdNum 7), userRoles = Some roles,
         capabilities = Some [''read''], isAuthenticated = True\<rparr>\<rparr>"
  let ?with_caps = "\<lambda>caps.
      \<lparr>query = ''subscription { postUpdated { id } }'', variables = JObj [],
       operationName = None,
       userContext = Some \<lparr>userId = Some (UserIdNum 7), userRoles = Some [''subscriber''],
         capabilities = Some caps, isAuthenticated = True\<rparr>\<rparr>"
  let ?name = "\<lambda>n. [replicate (Suc n) CHR ''a'']"
  have p: "cache_payload ?s1 = cache_payload ?s2"
    by (simp add: cache_payload_def normalizeUserContext_def userId_or_null_def)
  have i: "userIndicator (userContext ?s1) = userIndicator (userContext ?s2)"
    by (simp add: userIndicator_def)
  have falsy: "generateCacheKey ?s1 = generateCacheKey ?s2"
    unfolding generateCacheKey_def p i ..
  have names: "set (?name n) \<noteq> set (?name m)" if "n \<noteq> m" for n m :: nat
  proof
    assume "set (?name n) = set (?name m)"
    then have "replicate (Suc n) CHR ''a'' = replicate (Suc m) CHR ''a''"
      by simp
    then have "length (replicate (Suc n) CHR ''a'') = length (replicate (Suc m) CHR ''a'')"
      by (rule arg_cong)
    with that show False
      by simp
  qed
  have "\<exists>n m. n \<noteq> m \<and>
      generateCacheKey (?with_roles (?name n)) = generateCacheKey (?with_roles (?name m))"
    by (rule cache_keys_collide [where ind = "''u'' @ show_int 7"]) (simp add: userIndicator_def)
  then obtain n m where "n \<noteq> m"
    and "generateCacheKey (?with_roles (?name n)) = generateCacheKey (?with_roles (?name m))"
    by blast
  with names [of n m] have roles: "\<exists>roles1 roles2. set roles1 \<noteq> set roles2 \<and>
      generateCacheKey (?with_roles roles1) = generateCacheKey (?with_roles roles2)"
    by blast
  have "\<exists>n m. n \<noteq> m \<and>
      generateCacheKey (?with_caps (?name n)) = generateCacheKey (?with_caps (?name m))"
    by (rule cache_keys_collide [where ind = "''u'' @ show_int 7"]) (simp add: userIndicator_def)
  then obtain n' m' where "n' \<noteq> m'"
    and "generateCacheKey (?with_caps (?name n')) = generateCacheKey (?with_caps (?name m'))"
    by blast
  with names [of n' m'] have caps: "\<exists>caps1 caps2. set caps1 \<noteq> set caps2 \<and>
      generateCacheKey (?with_caps caps1) = generateCacheKey (?with_caps caps2)"
    by blast
  from falsy roles caps show ?thesis
    by simp
qed

section \<open>Single flight\<close>

subsection \<open>What one step does\<close>

lemma timestamp_settled_result: "timestamp (settled_result outcome start) = start"
  by (cases outcome) (simp_all add: settled_result_def errorResult_def)

lemma count_list_snoc: "count_list (xs @ [x]) k = count_list xs k + (if x = k then 1 else 0)"
  by (induction xs) simp_all

lemma call_hit_eq:
  assumes "cache st (generateCacheKey sub) = Some r" and "now - timestamp r < ttlMs st"
  shows "executeWithDeduplication st now sub sid = (Returned r, st)"
  using assms by (simp add: executeWithDeduplication_def Let_def)

lemma call_join_eq:
  assumes "\<forall>r. cache st (generateCacheKey sub) = Some r \<longrightarrow> \<not> now - timestamp r < ttlMs st"
    and "pendingExecutions st (generateCacheKey sub) = Some pe"
  shows "executeWithDeduplication st now sub sid =
     (AwaitJoined (generateCacheKey sub) (promise pe),
      st\<lparr>pendingExecutions := (pendingExecutions st)(generateCacheKey sub \<mapsto>
             pe\<lparr>subscribers := insert sid (subscribers pe)\<rparr>)\<rparr>)"
proof -
  have "(case cache st (generateCacheKey sub) of
           Some c \<Rightarrow> if now - timestamp c < ttlMs st then Some c else None
         | None \<Rightarrow> None) = None"
    using assms(1) by (simp split: option.splits)
  then show ?thesis
    using assms(2) by (simp add: executeWithDeduplication_def Let_def)
qed

lemma call_start_eq:
  assumes "\<forall>r. cache st (generateCacheKey sub) = Some r \<longrightarrow> \<not> now - timestamp r < ttlMs st"
    and "pendingExecutions st (generateCacheKey sub) = None"
  shows "executeWithDeduplication st now sub sid =
     (AwaitOwn (generateCacheKey sub) (nextPromise st),
      st\<lparr>promises := (promises st)(nextPromise st \<mapsto> Running (generateCacheKey sub) now),
         nextPromise := Suc (nextPromise st),
         executorCalls := executorCalls st @ [generateCacheKey sub],
         pendingExecutions := (pendingExecutions st)(generateCacheKey sub \<mapsto>
           \<lparr>promise = nextPromise st, subscribers = {sid}\<rparr>)\<rparr>)"
proof -
  have "(case cache st (generateCacheKey sub) of
           Some c \<Rightarrow> if now - timestamp c < ttlMs st then Some c else None
         | None \<Rightarrow> None) = None"
    using assms(1) by (simp split: option.splits)
  then show ?thesis
    using assms(2)
    by (simp add: executeWithDeduplication_def executeAndCache_start_def Let_def)
qed

lemma settle_cases:
  assumes "executeAndCache_settle st p outcome = Some st'"
  obtains key start where "promises st p = Some (Running key start)"
    and "st' = st\<lparr>cache := (cache st)(key \<mapsto> settled_result outcome start),
                 promises := (promises st)(p \<mapsto> Fulfilled (settled_result outcome start))\<rparr>"
  using assms
  by (auto simp: executeAndCache_settle_def Let_def split: option.splits promise_state.splits)

lemma resume_cases:
  assumes "resume_call st suspended sid = Some (r, st')"
  obtains (own) key p where "suspended = AwaitOwn key p"
      and "promises st p = Some (Fulfilled r)"
      and "st' = st\<lparr>pendingExecutions := (pendingExecutions st)(key := None)\<rparr>"
  | (joined) key p where "suspended = AwaitJoined key p"
      and "promises st p = Some (Fulfilled r)"
      and "st' = st \<or> (\<exists>pe. pendingExecutions st key = Some pe \<and> promise pe = p \<and>
             st' = st\<lparr>pendingExecutions := (pendingExecutions st)(key \<mapsto>
               pe\<lparr>subscribers := subscribers pe - {sid}\<rparr>)\<rparr>)"
  using assms
  by (auto simp: resume_call_def split: call_outcome.splits option.splits promise_state.splits
      if_splits)


subsection \<open>Every step keeps the invariant\<close>

lemma expired_before_iff:
  "expired_before k t0 st \<longleftrightarrow> (\<forall>r. cache st k = Some r \<longrightarrow> ttlMs st \<le> t0 - timestamp r)"
  by (simp add: expired_before_def split: option.splits)

lemma expired_before_cong:
  assumes "cache st' k = cache st k" and "ttlMs st' = ttlMs st"
  shows "expired_before k t0 st' = expired_before k t0 st"
  using assms by (simp add: expired_before_def split: option.splits)

lemma expired_before_cleanup:
  assumes "expired_before k t0 st"
  shows "expired_before k t0 (cleanup st now)"
  using assms by (simp add: expired_before_def cleanup_def split: option.splits)

lemma expired_before_miss:
  assumes "expired_before k t0 st" and "cache st k = Some r" and "t0 \<le> now"
  shows "\<not> now - timestamp r < ttlMs st"
  using assms by (simp add: expired_before_def)

lemma callers_of_cstate [simp]: "callers_of k (s\<lparr>cstate := st'\<rparr>) = callers_of k s"
  by (simp add: callers_of_def)

lemma inv_sweep:
  assumes inv: "single_flight_inv k t0 c0 ttl s"
    and win: "now - t0 < ttl"
  shows "single_flight_inv k t0 c0 ttl (s\<lparr>cstate := cleanup (cstate s) now\<rparr>)"
proof -
  let ?s' = "s\<lparr>cstate := cleanup (cstate s) now\<rparr>"
  have ttl: "ttlMs (cstate s) = ttl"
    using inv by (simp add: single_flight_inv_def)
  have general: "ttlMs (cstate ?s') = ttl"
    "\<forall>q. nextPromise (cstate ?s') \<le> q \<longrightarrow> promises (cstate ?s') q = None"
    "\<forall>i sub sid suspended. tasks ?s' i = Some (sub, sid, Suspended suspended)
         \<longrightarrow> outcome_key suspended = Some (generateCacheKey sub)"
    using inv by (simp_all add: single_flight_inv_def cleanup_def)
  have idle: "idle_phase k t0 c0 ?s'" if "idle_phase k t0 c0 s"
    using that by (simp add: idle_phase_def expired_before_cleanup) (simp add: cleanup_def)
  have flight: "flight_phase k t0 c0 p ?s'" if "flight_phase k t0 c0 p s" for p
    using that by (simp add: flight_phase_def expired_before_cleanup) (simp add: cleanup_def)
  have settled: "settled_phase k t0 c0 p r ?s'" if "settled_phase k t0 c0 p r s" for p r
  proof -
    from that have "cache (cstate s) k = Some r" and "t0 \<le> timestamp r"
      by (simp_all add: settled_phase_def)
    with win ttl have "cache (cleanup (cstate s) now) k = Some r"
      by (simp add: cleanup_def)
    with that show ?thesis
      by (simp add: settled_phase_def) (simp add: cleanup_def)
  qed
  have "idle_phase k t0 c0 ?s' \<or> (\<exists>p. flight_phase k t0 c0 p ?s')
      \<or> (\<exists>p r. settled_phase k t0 c0 p r ?s')"
    using inv idle flight settled unfolding single_flight_inv_def by blast
  with general show ?thesis
    unfolding single_flight_inv_def by blast
qed


lemma inv_settle:
  assumes inv: "single_flight_inv k t0 c0 ttl s"
    and settle: "executeAndCache_settle (cstate s) q outcome = Some st'"
  shows "single_flight_inv k t0 c0 ttl (s\<lparr>cstate := st'\<rparr>)"
proof -
  let ?s' = "s\<lparr>cstate := st'\<rparr>"
  from settle obtain key start where run: "promises (cstate s) q = Some (Running key start)"
    and st': "st' = (cstate s)\<lparr>cache := (cache (cstate s))(key \<mapsto> settled_result outcome start),
        promises := (promises (cstate s))(q \<mapsto> Fulfilled (settled_result outcome start))\<rparr>"
    by (rule settle_cases)
  have fresh: "\<forall>q'. nextPromise (cstate s) \<le> q' \<longrightarrow> promises (cstate s) q' = None"
    using inv by (simp add: single_flight_inv_def)
  have general: "ttlMs (cstate ?s') = ttl"
    "\<forall>q'. nextPromise (cstate ?s') \<le> q' \<longrightarrow> promises (cstate ?s') q' = None"
    "\<forall>i sub sid suspended. tasks ?s' i = Some (sub, sid, Suspended suspended)
         \<longrightarrow> outcome_key suspended = Some (generateCacheKey sub)"
    using inv run fresh by (auto simp: single_flight_inv_def st')
  have idle: "idle_phase k t0 c0 ?s'" if "idle_phase k t0 c0 s"
  proof -
    from that run have "key \<noteq> k"
      by (auto simp: idle_phase_def)
    then have "expired_before k t0 st' = expired_before k t0 (cstate s)"
      by (intro expired_before_cong) (simp_all add: st')
    with that \<open>key \<noteq> k\<close> show ?thesis
      by (simp add: idle_phase_def) (simp add: st')
  qed
  have flight: "flight_phase k t0 c0 p ?s' \<or> (\<exists>r. settled_phase k t0 c0 p r ?s')"
    if ph: "flight_phase k t0 c0 p s" for p
  proof (cases "key = k")
    case True
    with ph run have qp: "q = p"
      by (simp add: flight_phase_def)
    from ph run qp True have "t0 \<le> start"
      by (auto simp: flight_phase_def)
    then have "settled_phase k t0 c0 p (settled_result outcome start) ?s'"
      using ph run qp True
      by (auto simp: flight_phase_def settled_phase_def st' timestamp_settled_result)
    then show ?thesis
      by blast
  next
    case False
    with ph run have "q \<noteq> p"
      by (auto simp: flight_phase_def)
    moreover from False have "expired_before k t0 st' = expired_before k t0 (cstate s)"
      by (intro expired_before_cong) (simp_all add: st')
    ultimately have "flight_phase k t0 c0 p ?s'"
      using ph False by (simp add: flight_phase_def) (auto simp: st')
    then show ?thesis
      by blast
  qed
  have settled: "settled_phase k t0 c0 p r ?s'" if ph: "settled_phase k t0 c0 p r s" for p r
  proof -
    from ph run have "key \<noteq> k"
      by (auto simp: settled_phase_def)
    moreover from ph run have "q \<noteq> p"
      by (auto simp: settled_phase_def)
    ultimately show ?thesis
      using ph by (auto simp: settled_phase_def st')
  qed
  have "idle_phase k t0 c0 ?s' \<or> (\<exists>p. flight_phase k t0 c0 p ?s')
      \<or> (\<exists>p r. settled_phase k t0 c0 p r ?s')"
    using inv idle flight settled unfolding single_flight_inv_def by blast
  with general show ?thesis
    unfolding single_flight_inv_def by blast
qed


lemma call_cases:
  assumes "executeWithDeduplication st now sub sid = (out, st')"
  obtains (hit) r where "cache st (generateCacheKey sub) = Some r"
      and "now - timestamp r < ttlMs st" and "out = Returned r" and "st' = st"
  | (join) pe where "\<forall>r. cache st (generateCacheKey sub) = Some r \<longrightarrow> \<not> now - timestamp r < ttlMs st"
      and "pendingExecutions st (generateCacheKey sub) = Some pe"
      and "out = AwaitJoined (generateCacheKey sub) (promise pe)"
      and "st' = st\<lparr>pendingExecutions := (pendingExecutions st)(generateCacheKey sub \<mapsto>
             pe\<lparr>subscribers := insert sid (subscribers pe)\<rparr>)\<rparr>"
  | (start) "\<forall>r. cache st (generateCacheKey sub) = Some r \<longrightarrow> \<not> now - timestamp r < ttlMs st"
      and "pendingExecutions st (generateCacheKey sub) = None"
      and "out = AwaitOwn (generateCacheKey sub) (nextPromise st)"
      and "st' = st\<lparr>promises := (promises st)(nextPromise st \<mapsto> Running (generateCacheKey sub) now),
             nextPromise := Suc (nextPromise st),
             executorCalls := executorCalls st @ [generateCacheKey sub],
             pendingExecutions := (pendingExecutions st)(generateCacheKey sub \<mapsto>
               \<lparr>promise = nextPromise st, subscribers = {sid}\<rparr>)\<rparr>"
proof (cases "\<exists>r. cache st (generateCacheKey sub) = Some r \<and> now - timestamp r < ttlMs st")
  case True
  then obtain r where r: "cache st (generateCacheKey sub) = Some r" "now - timestamp r < ttlMs st"
    by blast
  with assms call_hit_eq [OF r, of sid] have "out = Returned r" and "st' = st"
    by simp_all
  with r show thesis
    by (rule hit)
next
  case False
  then have miss: "\<forall>r. cache st (generateCacheKey sub) = Some r \<longrightarrow> \<not> now - timestamp r < ttlMs st"
    by blast
  show thesis
  proof (cases "pendingExecutions st (generateCacheKey sub)")
    case None
    with assms call_start_eq [OF miss None, of sid] miss show thesis
      by (intro start) simp_all
  next
    case (Some pe)
    with assms call_join_eq [OF miss Some, of sid] miss show thesis
      by (intro join [of pe]) simp_all
  qed
qed

lemma callers_of_same_subscription:
  assumes "tasks s i = Some (sub, sid, x)"
  shows "callers_of k \<lparr>cstate = st', tasks = (tasks s)(i \<mapsto> (sub, sid, y))\<rparr> = callers_of k s"
  using assms by (auto simp: callers_of_def)

lemma callers_of_new_task:
  assumes "tasks s i = None"
  shows "callers_of k \<lparr>cstate = st', tasks = (tasks s)(i \<mapsto> (sub, sid, y))\<rparr> =
     (if generateCacheKey sub = k then insert i (callers_of k s) else callers_of k s)"
  using assms by (auto simp: callers_of_def)


lemma flight_phase_task:
  assumes "flight_phase k t0 c0 q s" and "tasks s j = Some (sub, sid, progress)"
    and "generateCacheKey sub = k"
  shows "waits_for k q progress"
  using assms unfolding flight_phase_def by blast

lemma settled_phase_task:
  assumes "settled_phase k t0 c0 q r s" and "tasks s j = Some (sub, sid, progress)"
    and "generateCacheKey sub = k"
  shows "waits_for k q progress \<or> progress = Finished r"
  using assms unfolding settled_phase_def by blast

lemma inv_resume:
  assumes inv: "single_flight_inv k t0 c0 ttl s"
    and task: "tasks s i = Some (sub, sid, Suspended suspended)"
    and resume: "resume_call (cstate s) suspended sid = Some (r', st')"
  shows "single_flight_inv k t0 c0 ttl
           \<lparr>cstate = st', tasks = (tasks s)(i \<mapsto> (sub, sid, Finished r'))\<rparr>"
proof -
  let ?s' = "\<lparr>cstate = st', tasks = (tasks s)(i \<mapsto> (sub, sid, Finished r'))\<rparr>"
  let ?key = "generateCacheKey sub"
  have okey: "outcome_key suspended = Some ?key"
    using inv task by (simp add: single_flight_inv_def)
  have callers: "callers_of k \<lparr>cstate = st', tasks = (tasks s)(i \<mapsto> (sub, sid, y))\<rparr>
      = callers_of k s" for y
    using task by (rule callers_of_same_subscription)
  have member: "i \<in> callers_of k s" if "?key = k"
    using that task by (auto simp: callers_of_def)
  obtain p where susp: "suspended = AwaitOwn ?key p \<or> suspended = AwaitJoined ?key p"
    and ful: "promises (cstate s) p = Some (Fulfilled r')"
    and same: "cache st' = cache (cstate s)" "promises st' = promises (cstate s)"
      "nextPromise st' = nextPromise (cstate s)" "executorCalls st' = executorCalls (cstate s)"
      "ttlMs st' = ttlMs (cstate s)"
    and other: "\<And>k'. k' \<noteq> ?key \<Longrightarrow> pendingExecutions st' k' = pendingExecutions (cstate s) k'"
    and pend: "\<And>pe. pendingExecutions st' ?key = Some pe \<Longrightarrow>
        \<exists>pe0. pendingExecutions (cstate s) ?key = Some pe0 \<and> promise pe = promise pe0"
    using resume okey by (cases rule: resume_cases) auto
  have general: "ttlMs (cstate ?s') = ttl"
    "\<forall>q. nextPromise (cstate ?s') \<le> q \<longrightarrow> promises (cstate ?s') q = None"
    "\<forall>j sub' sid' suspended'. tasks ?s' j = Some (sub', sid', Suspended suspended')
         \<longrightarrow> outcome_key suspended' = Some (generateCacheKey sub')"
    using inv same by (auto simp: single_flight_inv_def)
  have idle: "idle_phase k t0 c0 ?s'" if ph: "idle_phase k t0 c0 s"
  proof -
    from ph member have "?key \<noteq> k"
      by (auto simp: idle_phase_def)
    with ph other [of k] show ?thesis
      by (simp add: idle_phase_def callers same expired_before_cong [of st' k "cstate s"])
  qed
  have flight: "flight_phase k t0 c0 q ?s'" if ph: "flight_phase k t0 c0 q s" for q
  proof -
    have "?key \<noteq> k"
    proof
      assume k: "?key = k"
      with ph task have "waits_for k q (Suspended suspended)"
        by (intro flight_phase_task)
      with susp k have "p = q"
        by (auto simp: waits_for_def)
      with ph ful show False
        by (auto simp: flight_phase_def)
    qed
    with ph other [of k] show ?thesis
      by (auto simp: flight_phase_def callers same expired_before_cong [of st' k "cstate s"])
  qed
  have settled: "settled_phase k t0 c0 q r ?s'" if ph: "settled_phase k t0 c0 q r s" for q r
  proof (cases "?key = k")
    case True
    with ph task have "waits_for k q (Suspended suspended) \<or> Suspended suspended = Finished r"
      by (intro settled_phase_task)
    with susp True have pq: "p = q"
      by (auto simp: waits_for_def)
    with ph ful have rr: "r' = r"
      by (simp add: settled_phase_def)
    have "promise pe = q" if "pendingExecutions st' k = Some pe" for pe
      using pend [of pe] that True ph by (auto simp: settled_phase_def)
    with ph rr show ?thesis
      by (auto simp: settled_phase_def callers same)
  next
    case False
    with ph other [of k] show ?thesis
      by (auto simp: settled_phase_def callers same)
  qed
  have "idle_phase k t0 c0 ?s' \<or> (\<exists>p. flight_phase k t0 c0 p ?s')
      \<or> (\<exists>p r. settled_phase k t0 c0 p r ?s')"
    using inv idle flight settled unfolding single_flight_inv_def by blast
  with general show ?thesis
    unfolding single_flight_inv_def by blast
qed


lemma idle_phase_no_caller:
  assumes "idle_phase k t0 c0 s" and "tasks s j = Some (sub, sid, progress)"
  shows "generateCacheKey sub \<noteq> k"
proof
  assume "generateCacheKey sub = k"
  with assms(2) have "j \<in> callers_of k s"
    unfolding callers_of_def by blast
  with assms(1) show False
    by (simp add: idle_phase_def)
qed

lemma inv_call:
  assumes inv: "single_flight_inv k t0 c0 ttl s"
    and new: "tasks s i = None"
    and win: "generateCacheKey sub = k \<longrightarrow> t0 \<le> now \<and> now - t0 < ttl"
    and call: "executeWithDeduplication (cstate s) now sub sid = (out, st')"
  shows "single_flight_inv k t0 c0 ttl
           \<lparr>cstate = st',
            tasks = (tasks s)(i \<mapsto> (sub, sid,
              (case out of Returned r \<Rightarrow> Finished r | _ \<Rightarrow> Suspended out)))\<rparr>"
proof -
  let ?key = "generateCacheKey sub"
  let ?st = "cstate s"
  have ttl: "ttlMs ?st = ttl"
    and fresh: "\<And>q. nextPromise ?st \<le> q \<Longrightarrow> promises ?st q = None"
    and keys: "\<And>j sub' sid' suspended'. tasks s j = Some (sub', sid', Suspended suspended')
         \<Longrightarrow> outcome_key suspended' = Some (generateCacheKey sub')"
    and phases: "idle_phase k t0 c0 s \<or> (\<exists>p. flight_phase k t0 c0 p s)
        \<or> (\<exists>p r. settled_phase k t0 c0 p r s)"
    using inv unfolding single_flight_inv_def by blast+
  have callers: "callers_of k \<lparr>cstate = x, tasks = (tasks s)(i \<mapsto> (sub, sid, y))\<rparr> =
     (if ?key = k then insert i (callers_of k s) else callers_of k s)" for x y
    using new by (rule callers_of_new_task)
  have live: "now - timestamp r < ttlMs ?st" if "?key = k" "t0 \<le> timestamp r" for r
    using that win ttl by simp
  have miss: "?key \<noteq> k" if "expired_before k t0 ?st" "cache ?st ?key = Some r"
    "now - timestamp r < ttlMs ?st" for r
  proof
    assume k: "?key = k"
    with win have "t0 \<le> now"
      by simp
    with that k expired_before_miss [of k t0 ?st r now] show False
      by simp
  qed
  have positive: "0 < ttlMs ?st" if "?key = k"
    using that win ttl by simp
  from call show ?thesis
  proof (cases rule: call_cases)
    case (hit r)
    let ?s' = "\<lparr>cstate = ?st, tasks = (tasks s)(i \<mapsto> (sub, sid, Finished r))\<rparr>"
    have general: "ttlMs (cstate ?s') = ttl"
      "\<forall>q. nextPromise (cstate ?s') \<le> q \<longrightarrow> promises (cstate ?s') q = None"
      "\<forall>j sub' sid' suspended'. tasks ?s' j = Some (sub', sid', Suspended suspended')
         \<longrightarrow> outcome_key suspended' = Some (generateCacheKey sub')"
      using ttl fresh keys by auto
    have idle: "idle_phase k t0 c0 ?s'" if ph: "idle_phase k t0 c0 s"
    proof -
      from ph have "expired_before k t0 ?st"
        by (simp add: idle_phase_def)
      then have "?key \<noteq> k"
        using hit(1,2) by (rule miss)
      with ph show ?thesis
        by (simp add: idle_phase_def callers)
    qed
    have flight: "flight_phase k t0 c0 p ?s'" if ph: "flight_phase k t0 c0 p s" for p
    proof -
      from ph have "expired_before k t0 ?st"
        by (simp add: flight_phase_def)
      then have "?key \<noteq> k"
        using hit(1,2) by (rule miss)
      with ph show ?thesis
        by (auto simp: flight_phase_def callers)
    qed
    have settled: "settled_phase k t0 c0 p r0 ?s'" if ph: "settled_phase k t0 c0 p r0 s" for p r0
    proof -
      from ph hit(1) have "?key = k \<longrightarrow> r = r0"
        by (auto simp: settled_phase_def)
      with ph show ?thesis
        by (auto simp: settled_phase_def callers)
    qed
    have "idle_phase k t0 c0 ?s' \<or> (\<exists>p. flight_phase k t0 c0 p ?s')
        \<or> (\<exists>p r. settled_phase k t0 c0 p r ?s')"
      using phases idle flight settled by blast
    with general show ?thesis
      unfolding single_flight_inv_def hit by simp
  next
    case (join pe)
    let ?st' = "?st\<lparr>pendingExecutions := (pendingExecutions ?st)(?key \<mapsto>
             pe\<lparr>subscribers := insert sid (subscribers pe)\<rparr>)\<rparr>"
    let ?s' = "\<lparr>cstate = ?st',
        tasks = (tasks s)(i \<mapsto> (sub, sid, Suspended (AwaitJoined ?key (promise pe))))\<rparr>"
    have expired: "expired_before k t0 ?st' = expired_before k t0 ?st"
      by (rule expired_before_cong) simp_all
    have general: "ttlMs (cstate ?s') = ttl"
      "\<forall>q. nextPromise (cstate ?s') \<le> q \<longrightarrow> promises (cstate ?s') q = None"
      "\<forall>j sub' sid' suspended'. tasks ?s' j = Some (sub', sid', Suspended suspended')
         \<longrightarrow> outcome_key suspended' = Some (generateCacheKey sub')"
      using ttl fresh keys by auto
    have idle: "idle_phase k t0 c0 ?s'" if ph: "idle_phase k t0 c0 s"
    proof -
      from ph join(2) have "?key \<noteq> k"
        by (auto simp: idle_phase_def)
      with ph show ?thesis
        by (simp add: idle_phase_def callers expired)
    qed
    have flight: "flight_phase k t0 c0 p ?s'" if ph: "flight_phase k t0 c0 p s" for p
    proof (cases "?key = k")
      case True
      with ph join(2) have "promise pe = p"
        by (auto simp: flight_phase_def)
      moreover from ph have "expired_before k t0 ?st'"
        by (simp add: flight_phase_def expired)
      ultimately show ?thesis
        using ph True by (auto simp: flight_phase_def callers waits_for_def)
    next
      case False
      moreover from ph have "expired_before k t0 ?st'"
        by (simp add: flight_phase_def expired)
      ultimately show ?thesis
        using ph by (auto simp: flight_phase_def callers)
    qed
    have settled: "settled_phase k t0 c0 p r0 ?s'" if ph: "settled_phase k t0 c0 p r0 s" for p r0
    proof -
      have "?key \<noteq> k"
      proof
        assume k: "?key = k"
        with ph have "cache ?st ?key = Some r0" and "t0 \<le> timestamp r0"
          by (simp_all add: settled_phase_def)
        with join(1) live [OF k] show False
          by blast
      qed
      with ph show ?thesis
        by (auto simp: settled_phase_def callers)
    qed
    have "idle_phase k t0 c0 ?s' \<or> (\<exists>p. flight_phase k t0 c0 p ?s')
        \<or> (\<exists>p r. settled_phase k t0 c0 p r ?s')"
      using phases idle flight settled by blast
    with general show ?thesis
      unfolding single_flight_inv_def join by simp
  next
    case start
    let ?np = "nextPromise ?st"
    let ?st' = "?st\<lparr>promises := (promises ?st)(?np \<mapsto> Running ?key now),
             nextPromise := Suc ?np,
             executorCalls := executorCalls ?st @ [?key],
             pendingExecutions := (pendingExecutions ?st)(?key \<mapsto>
               \<lparr>promise = ?np, subscribers = {sid}\<rparr>)\<rparr>"
    let ?s' = "\<lparr>cstate = ?st',
        tasks = (tasks s)(i \<mapsto> (sub, sid, Suspended (AwaitOwn ?key ?np)))\<rparr>"
    have expired: "expired_before k t0 ?st' = expired_before k t0 ?st"
      by (rule expired_before_cong) simp_all
    have np: "promises ?st ?np = None"
      by (rule fresh) simp
    have general: "ttlMs (cstate ?s') = ttl"
      "\<forall>q. nextPromise (cstate ?s') \<le> q \<longrightarrow> promises (cstate ?s') q = None"
      "\<forall>j sub' sid' suspended'. tasks ?s' j = Some (sub', sid', Suspended suspended')
         \<longrightarrow> outcome_key suspended' = Some (generateCacheKey sub')"
      using ttl fresh keys by auto
    have idle: "idle_phase k t0 c0 ?s' \<or> flight_phase k t0 c0 ?np ?s'" if ph: "idle_phase k t0 c0 s"
    proof (cases "?key = k")
      case True
      have waiting: "waits_for k ?np progress"
        if "tasks ?s' j = Some (sub', sid', progress)" "generateCacheKey sub' = k"
        for j sub' sid' progress
      proof (cases "j = i")
        case True
        with that \<open>?key = k\<close> show ?thesis
          by (auto simp: waits_for_def)
      next
        case False
        with that idle_phase_no_caller [OF ph, of j sub' sid' progress] show ?thesis
          by simp
      qed
      have c1: "expired_before k t0 (cstate ?s') \<and> 0 < ttlMs (cstate ?s')"
        using ph positive [OF True] by (simp add: idle_phase_def expired)
      have c2: "\<exists>pe. pendingExecutions (cstate ?s') k = Some pe \<and> promise pe = ?np"
        using True by simp
      have c3: "\<exists>start. promises (cstate ?s') ?np = Some (Running k start) \<and> t0 \<le> start"
        using win True by simp
      have c4: "\<forall>q start. promises (cstate ?s') q = Some (Running k start) \<longrightarrow> q = ?np"
        using ph by (simp add: idle_phase_def)
      have c5: "count_list (executorCalls (cstate ?s')) k = Suc c0"
        using ph True by (simp add: idle_phase_def count_list_snoc)
      have c6: "callers_of k ?s' \<noteq> {}"
        using True by (simp add: callers)
      have c7: "\<forall>j sub' sid' progress.
          tasks ?s' j = Some (sub', sid', progress) \<and> generateCacheKey sub' = k
            \<longrightarrow> waits_for k ?np progress"
        using waiting by blast
      have "flight_phase k t0 c0 ?np ?s'"
        unfolding flight_phase_def using c1 c2 c3 c4 c5 c6 c7 by blast
      then show ?thesis
        by blast
    next
      case False
      with ph np have "idle_phase k t0 c0 ?s'"
        by (auto simp: idle_phase_def callers count_list_snoc expired)
      then show ?thesis
        by blast
    qed
    have flight: "flight_phase k t0 c0 p ?s'" if ph: "flight_phase k t0 c0 p s" for p
    proof -
      from ph start(2) have k: "?key \<noteq> k"
        by (auto simp: flight_phase_def)
      from ph np have "p \<noteq> ?np"
        by (auto simp: flight_phase_def)
      with ph k show ?thesis
        by (auto simp: flight_phase_def callers count_list_snoc expired)
    qed
    have settled: "settled_phase k t0 c0 p r0 ?s'" if ph: "settled_phase k t0 c0 p r0 s" for p r0
    proof -
      have k: "?key \<noteq> k"
      proof
        assume k: "?key = k"
        with ph have "cache ?st ?key = Some r0" and "t0 \<le> timestamp r0"
          by (simp_all add: settled_phase_def)
        with start(1) live [OF k] show False
          by blast
      qed
      from ph np have "p \<noteq> ?np"
        by (auto simp: settled_phase_def)
      with ph k show ?thesis
        by (auto simp: settled_phase_def callers count_list_snoc)
    qed
    have "idle_phase k t0 c0 ?s' \<or> (\<exists>p. flight_phase k t0 c0 p ?s')
        \<or> (\<exists>p r. settled_phase k t0 c0 p r ?s')"
      using phases idle flight settled by blast
    with general show ?thesis
      unfolding single_flight_inv_def start by simp
  qed
qed

lemma inv_step:
  assumes inv: "single_flight_inv k t0 c0 ttl s"
    and win: "in_window k t0 ttl e"
    and step: "step s e = Some s'"
  shows "single_flight_inv k t0 c0 ttl s'"
proof (cases e)
  case (Call i sub sid now)
  from step Call have new: "tasks s i = None"
    by (cases "tasks s i") (simp_all add: step_def)
  obtain out st' where call: "executeWithDeduplication (cstate s) now sub sid = (out, st')"
    by (cases "executeWithDeduplication (cstate s) now sub sid") blast
  from step Call new call have s': "s' = \<lparr>cstate = st',
            tasks = (tasks s)(i \<mapsto> (sub, sid,
              (case out of Returned r \<Rightarrow> Finished r | _ \<Rightarrow> Suspended out)))\<rparr>"
    by (simp add: step_def)
  have w: "generateCacheKey sub = k \<longrightarrow> t0 \<le> now \<and> now - t0 < ttl"
    using win Call by simp
  show ?thesis
    unfolding s' using inv new w call by (rule inv_call)
next
  case (Settle p outcome)
  from step Settle obtain st' where settle: "executeAndCache_settle (cstate s) p outcome = Some st'"
    and s': "s' = s\<lparr>cstate := st'\<rparr>"
    by (cases "executeAndCache_settle (cstate s) p outcome") (simp_all add: step_def)
  show ?thesis
    unfolding s' using inv settle by (rule inv_settle)
next
  case (Resume i)
  from step Resume obtain sub sid progress where task: "tasks s i = Some (sub, sid, progress)"
    by (cases "tasks s i") (auto simp: step_def)
  with step Resume obtain suspended where susp: "progress = Suspended suspended"
    by (cases progress) (simp_all add: step_def)
  with step Resume task obtain r st' where
    resume: "resume_call (cstate s) suspended sid = Some (r, st')"
    and s': "s' = \<lparr>cstate = st', tasks = (tasks s)(i \<mapsto> (sub, sid, Finished r))\<rparr>"
    by (cases "resume_call (cstate s) suspended sid") (auto simp: step_def)
  show ?thesis
    unfolding s' using inv task [unfolded susp] resume by (rule inv_resume)
next
  case (Sweep now)
  with step have s': "s' = s\<lparr>cstate := cleanup (cstate s) now\<rparr>"
    by (simp add: step_def)
  have w: "now - t0 < ttl"
    using win Sweep by simp
  show ?thesis
    unfolding s' using inv w by (rule inv_sweep)
qed

lemma inv_run:
  assumes "single_flight_inv k t0 c0 ttl s"
    and "\<forall>e \<in> set es. in_window k t0 ttl e"
    and "run s es = Some s'"
  shows "single_flight_inv k t0 c0 ttl s'"
  using assms
proof (induction es arbitrary: s)
  case Nil
  then show ?case
    by simp
next
  case (Cons e es)
  from Cons.prems(3)
  have "(case step s e of None \<Rightarrow> None | Some s1 \<Rightarrow> run s1 es) = Some s'"
    by simp
  then obtain s1 where s1: "step s e = Some s1" and rest: "run s1 es = Some s'"
    by (cases "step s e") simp_all
  have "in_window k t0 ttl e"
    using Cons.prems(2) by simp
  with Cons.prems(1) have "single_flight_inv k t0 c0 ttl s1"
    using s1 by (rule inv_step)
  then show ?case
    using Cons.IH [of s1] Cons.prems(2) rest by simp
qed

subsection \<open>One execution for all callers in the window\<close>

lemma inv_initial:
  assumes "nothing_live_for k t0 st0"
  shows "single_flight_inv k t0 (count_list (executorCalls st0) k) (ttlMs st0)
           \<lparr>cstate = st0, tasks = Map.empty\<rparr>"
  using assms
  by (simp add: single_flight_inv_def idle_phase_def nothing_live_for_def callers_of_def)

lemma resume_waiting:
  assumes "waits_for k p (Suspended suspended)" and "promises st p = Some (Fulfilled r)"
  shows "\<exists>st'. resume_call st suspended sid = Some (r, st')"
  using assms by (auto simp: waits_for_def resume_call_def)

text \<open>
  Claim C2 as stated fails: a result is stamped with the time its execution started, so
  an execution that started before the window serves the beginning of the window and
  expires inside it. With a time-to-live of 5000, an execution starts at time 0 and
  settles after a caller has joined it at time 4000; a second caller at time 6500 finds
  the entry expired and nothing pending, and runs the executor again. Both callers lie
  in the window that opens at 4000, and they receive different results.
\<close>

theorem callers_in_one_window_get_different_results:
  "in_window
     (generateCacheKey \<lparr>query = ''subscription { postUpdated { id } }'', variables = JObj [],
        operationName = None, userContext = None\<rparr>)
     4000 5000
     (Call 1 \<lparr>query = ''subscription { postUpdated { id } }'', variables = JObj [],
        operationName = None, userContext = None\<rparr> ''sub_a'' 4000) \<and>
   in_window
     (generateCacheKey \<lparr>query = ''subscription { postUpdated { id } }'', variables = JObj [],
        operationName = None, userContext = None\<rparr>)
     4000 5000
     (Call 2 \<lparr>query = ''subscription { postUpdated { id } }'', variables = JObj [],
        operationName = None, userContext = None\<rparr> ''sub_b'' 6500) \<and>
   (\<exists>s. run \<lparr>cstate = new_cache 5000, tasks = Map.empty\<rparr>
        [Call 0 \<lparr>query = ''subscription { postUpdated { id } }'', variables = JObj [],
           operationName = None, userContext = None\<rparr> ''sub_early'' 0,
         Call 1 \<lparr>query = ''subscription { postUpdated { id } }'', variables = JObj [],
           operationName = None, userContext = None\<rparr> ''sub_a'' 4000,
         Settle 0 (Resolves \<lparr>data = JStr ''x'', errors = None, timestamp = 0\<rparr>),
         Resume 0, Resume 1,
         Call 2 \<lparr>query = ''subscription { postUpdated { id } }'', variables = JObj [],
           operationName = None, userContext = None\<rparr> ''sub_b'' 6500,
         Settle 1 (Resolves \<lparr>data = JStr ''y'', errors = None, timestamp = 0\<rparr>),
         Resume 2] = Some s \<and>
      received s 1 = Some \<lparr>data = JStr ''x'', errors = None, timestamp = 0\<rparr> \<and>
      received s 2 = Some \<lparr>data = JStr ''y'', errors = None, timestamp = 6500\<rparr> \<and>
      executorCalls (cstate s) =
        [generateCacheKey \<lparr>query = ''subscription { postUpdated { id } }'', variables = JObj [],
           operationName = None, userContext = None\<rparr>,
         generateCacheKey \<lparr>query = ''subscription { postUpdated { id } }'', variables = JObj [],
           operationName = None, userContext = None\<rparr>])"
  by (simp add: step_def executeWithDeduplication_def executeAndCache_start_def
      executeAndCache_settle_def settled_result_def resume_call_def new_cache_def
      received_def Let_def)

text \<open>
  Claim C2, as amended. Let nothing of the key's past reach into the window that opens
  at \<open>t0\<close>: a cached entry for the key \<open>k\<close>, if there is one, has expired by \<open>t0\<close>, and no
  execution for \<open>k\<close> is pending or running. Let the callers, the executors' promises and
  the sweep take their steps in any order, every call for \<open>k\<close> being made at a time in
  the window from \<open>t0\<close> that is shorter than the time-to-live, and every sweep running
  before the window ends. Then, in the state reached:
  \<^item> once some caller for \<open>k\<close> has called, the executor has been invoked exactly once
    for \<open>k\<close> in the window (and not at all before the first call);
  \<^item> there is one result \<open>r\<close> such that every caller for \<open>k\<close> that has received a result
    has received \<open>r\<close>; a caller for \<open>k\<close> that is still suspended can resume with no other
    result than \<open>r\<close>, and does resume with \<open>r\<close> once an entry stamped in the window is
    cached for \<open>k\<close>.
\<close>

theorem single_flight_within_window:
  assumes past: "nothing_live_for k t0 st0"
    and window: "\<forall>e \<in> set es. in_window k t0 (ttlMs st0) e"
    and run: "run \<lparr>cstate = st0, tasks = Map.empty\<rparr> es = Some s"
  shows "(callers_of k s \<noteq> {} \<longrightarrow>
            count_list (executorCalls (cstate s)) k = Suc (count_list (executorCalls st0) k)) \<and>
         (callers_of k s = {} \<longrightarrow>
            count_list (executorCalls (cstate s)) k = count_list (executorCalls st0) k) \<and>
         (\<exists>r. (\<forall>i \<in> callers_of k s. \<forall>r'. received s i = Some r' \<longrightarrow> r' = r) \<and>
              (\<forall>i \<in> callers_of k s. \<forall>suspended sid.
                 suspended_call s i = Some (suspended, sid) \<longrightarrow>
                 (\<forall>r' st'. resume_call (cstate s) suspended sid = Some (r', st') \<longrightarrow> r' = r) \<and>
                 ((\<exists>e. cache (cstate s) k = Some e \<and> t0 \<le> timestamp e) \<longrightarrow>
                    (\<exists>st'. resume_call (cstate s) suspended sid = Some (r, st')))))"
proof -
  let ?c0 = "count_list (executorCalls st0) k"
  have inv: "single_flight_inv k t0 ?c0 (ttlMs st0) s"
    using inv_initial [OF past] window run by (rule inv_run)
  then consider (idle) "idle_phase k t0 ?c0 s"
    | (flight) p where "flight_phase k t0 ?c0 p s"
    | (settled) p r where "settled_phase k t0 ?c0 p r s"
    unfolding single_flight_inv_def by blast
  then show ?thesis
  proof cases
    case idle
    then show ?thesis
      by (simp add: idle_phase_def)
  next
    case (flight p)
    have stale: "\<not> (\<exists>e. cache (cstate s) k = Some e \<and> t0 \<le> timestamp e)"
      using flight by (auto simp: flight_phase_def expired_before_def)
    have running: "\<exists>start. promises (cstate s) p = Some (Running k start)"
      using flight by (auto simp: flight_phase_def)
    have task: "received s i = None \<and>
        (\<forall>suspended sid. suspended_call s i = Some (suspended, sid) \<longrightarrow>
           resume_call (cstate s) suspended sid = None)"
      if "i \<in> callers_of k s" for i
    proof -
      from that obtain sub sid progress where task: "tasks s i = Some (sub, sid, progress)"
        and "generateCacheKey sub = k"
        unfolding callers_of_def by blast
      with flight have "waits_for k p progress"
        by (intro flight_phase_task)
      with task running show ?thesis
        by (auto simp: received_def suspended_call_def waits_for_def resume_call_def)
    qed
    have count: "count_list (executorCalls (cstate s)) k = Suc ?c0" and "callers_of k s \<noteq> {}"
      using flight by (simp_all add: flight_phase_def)
    with task stale show ?thesis
      by simp
  next
    case (settled p r)
    have task: "(\<forall>r'. received s i = Some r' \<longrightarrow> r' = r) \<and>
        (\<forall>suspended sid. suspended_call s i = Some (suspended, sid) \<longrightarrow>
           (\<exists>st'. resume_call (cstate s) suspended sid = Some (r, st')))"
      if "i \<in> callers_of k s" for i
    proof -
      from that obtain sub sid progress where task: "tasks s i = Some (sub, sid, progress)"
        and "generateCacheKey sub = k"
        unfolding callers_of_def by blast
      with settled have cases: "waits_for k p progress \<or> progress = Finished r"
        by (intro settled_phase_task)
      have ful: "promises (cstate s) p = Some (Fulfilled r)"
        using settled by (simp add: settled_phase_def)
      show ?thesis
      proof (cases progress)
        case (Suspended suspended)
        with cases have "waits_for k p (Suspended suspended)"
          by simp
        then have "\<exists>st'. resume_call (cstate s) suspended sid' = Some (r, st')" for sid'
          using ful by (rule resume_waiting)
        with task Suspended show ?thesis
          by (simp add: received_def suspended_call_def)
      next
        case (Finished r')
        with cases have "r' = r"
          by (simp add: waits_for_def)
        with task Finished show ?thesis
          by (simp add: received_def suspended_call_def)
      qed
    qed
    have count: "count_list (executorCalls (cstate s)) k = Suc ?c0" "callers_of k s \<noteq> {}"
      using settled by (simp_all add: settled_phase_def)
    have "(\<forall>i \<in> callers_of k s. \<forall>r'. received s i = Some r' \<longrightarrow> r' = r) \<and>
        (\<forall>i \<in> callers_of k s. \<forall>suspended sid.
           suspended_call s i = Some (suspended, sid) \<longrightarrow>
           (\<forall>r' st'. resume_call (cstate s) suspended sid = Some (r', st') \<longrightarrow> r' = r) \<and>
           ((\<exists>e. cache (cstate s) k = Some e \<and> t0 \<le> timestamp e) \<longrightarrow>
              (\<exists>st'. resume_call (cstate s) suspended sid = Some (r, st'))))"
      using task by fastforce
    with count show ?thesis
      by blast
  qed
qed

text \<open>
  An instance: the window opens at 10000 with an entry for the key that was stamped at
  1000 and has expired; three callers in the window share one execution.
\<close>

theorem single_flight_within_window_witness:
  "nothing_live_for
     (generateCacheKey \<lparr>query = ''subscription { postUpdated { id } }'', variables = JObj [],
        operationName = None, userContext = None\<rparr>)
     10000
     ((new_cache 5000)\<lparr>cache :=
        [generateCacheKey \<lparr>query = ''subscription { postUpdated { id } }'', variables = JObj [],
           operationName = None, userContext = None\<rparr>
         \<mapsto> \<lparr>data = JStr ''old'', errors = None, timestamp = 1000\<rparr>]\<rparr>) \<and>
   (\<exists>s. run \<lparr>cstate = (new_cache 5000)\<lparr>cache :=
             [generateCacheKey \<lparr>query = ''subscription { postUpdated { id } }'',
                variables = JObj [], operationName = None, userContext = None\<rparr>
              \<mapsto> \<lparr>data = JStr ''old'', errors = None, timestamp = 1000\<rparr>]\<rparr>,
           tasks = Map.empty\<rparr>
        [Call 0 \<lparr>query = ''subscription { postUpdated { id } }'', variables = JObj [],
           operationName = None, userContext = None\<rparr> ''sub_a'' 10000,
         Call 1 \<lparr>query = ''subscription { postUpdated { id } }'', variables = JObj [],
           operationName = None, userContext = None\<rparr> ''sub_b'' 10001,
         Settle 0 (Resolves \<lparr>data = JStr ''x'', errors = None, timestamp = 0\<rparr>),
         Resume 0, Resume 1, Sweep 13000,
         Call 2 \<lparr>query = ''subscription { postUpdated { id } }'', variables = JObj [],
           operationName = None, userContext = None\<rparr> ''sub_c'' 14000] = Some s \<and>
      received s 0 = Some \<lparr>data = JStr ''x'', errors = None, timestamp = 10000\<rparr> \<and>
      received s 1 = Some \<lparr>data = JStr ''x'', errors = None, timestamp = 10000\<rparr> \<and>
      received s 2 = Some \<lparr>data = JStr ''x'', errors = None, timestamp = 10000\<rparr> \<and>
      count_list (executorCalls (cstate s))
        (generateCacheKey \<lparr>query = ''subscription { postUpdated { id } }'', variables = JObj [],
           operationName = None, userContext = None\<rparr>) = 1)"
proof -
  let ?sub = "\<lparr>query = ''subscription { postUpdated { id } }'', variables = JObj [],
        operationName = None, userContext = None\<rparr>"
  let ?k = "generateCacheKey ?sub"
  let ?res = "\<lparr>data = JStr ''x'', errors = None, timestamp = 10000\<rparr>"
  let ?es = "[Call 0 ?sub ''sub_a'' 10000, Call 1 ?sub ''sub_b'' 10001,
         Settle 0 (Resolves \<lparr>data = JStr ''x'', errors = None, timestamp = 0\<rparr>),
         Resume 0, Resume 1, Sweep 13000, Call 2 ?sub ''sub_c'' 14000]"
  let ?st0 = "(new_cache 5000)\<lparr>cache :=
        [?k \<mapsto> \<lparr>data = JStr ''old'', errors = None, timestamp = 1000\<rparr>]\<rparr>"
  let ?s0 = "\<lparr>cstate = ?st0, tasks = Map.empty\<rparr>"
  have past: "nothing_live_for ?k 10000 ?st0"
    by (simp add: nothing_live_for_def expired_before_def new_cache_def)
  have window: "\<forall>e \<in> set ?es. in_window ?k 10000 (ttlMs ?st0) e"
    by (simp add: new_cache_def)
  obtain s where run: "run ?s0 ?es = Some s"
    and rec: "received s 0 = Some ?res" "received s 1 = Some ?res" "received s 2 = Some ?res"
    and member: "0 \<in> callers_of ?k s"
    by (simp add: step_def executeWithDeduplication_def executeAndCache_start_def
        executeAndCache_settle_def settled_result_def resume_call_def cleanup_def new_cache_def
        received_def callers_of_def Let_def)
  from single_flight_within_window [OF past window run] member
  have "count_list (executorCalls (cstate s)) ?k = Suc (count_list (executorCalls ?st0) ?k)"
    by blast
  then have "count_list (executorCalls (cstate s)) ?k = 1"
    by (simp add: new_cache_def)
  with past run rec show ?thesis
    by blast
qed

end
